theory Spec2Isabelle
  imports
    Complex_Main
    "HOL-Library.AList"
    "HOL-Library.Sublist"
    "HOL-Library.Char_ord"
    "HOL-Library.List_Lexorder"
    "HOL-Library.Product_Lexorder"
begin

section \<open>Strings and paths\<close>

text \<open>
  Python strings are modelled as \<^typ>\<open>string\<close> (a list of 8-bit characters), so the
  model covers ASCII file names. \<open>str.lower()\<close> maps \<open>A\<close>..\<open>Z\<close> to \<open>a\<close>..\<open>z\<close>
  and leaves every other character alone.
\<close>

definition lower_char :: "char \<Rightarrow> char" where
  "lower_char c =
     (if 65 \<le> (of_char c :: nat) \<and> (of_char c :: nat) \<le> 90
      then char_of ((of_char c :: nat) + 32) else c)"

definition lower :: "string \<Rightarrow> string" where
  "lower s = map lower_char s"

text \<open>\<open>p in s\<close> on Python strings: \<open>p\<close> occurs in \<open>s\<close> as a contiguous block.\<close>

fun is_substr :: "string \<Rightarrow> string \<Rightarrow> bool" where
  "is_substr p [] = (p = [])"
| "is_substr p (c # s) = (prefix p (c # s) \<or> is_substr p s)"

text \<open>
  A \<open>pathlib.Path\<close> is the list of its components; \<open>Path.name\<close> is the last one
  (the empty string for the empty path).
\<close>

type_synonym path = "string list"

definition path_name :: "path \<Rightarrow> string" where
  "path_name p = (if p = [] then [] else last p)"

section \<open>The action classifier (action\_analyzer.py)\<close>

text \<open>
  \<open>self.action_patterns\<close> is a dict literal; a Python dict iterates in insertion
  order, so the table is an association list of (category, patterns).
\<close>

type_synonym rule_table = "(string \<times> string list) list"

definition action_patterns :: rule_table where
  "action_patterns =
    [(''dance'', [''dance'', ''flamenco'', ''salsa'', ''bachata'', ''reggaeton'',
                  ''karsilamas'', ''zeimpekiko'', ''hasapiko'', ''maleviziotikos'',
                  ''haniotikos'']),
     (''emotion'', [''happy'', ''sad'', ''angry'', ''tired'', ''excited'', ''afraid'',
                    ''annoyed'', ''nervous'', ''scary'', ''satisfied'']),
     (''daily'', [''walk'', ''run'', ''jump'', ''sit'', ''stand'', ''reach'', ''grab'',
                  ''throw'', ''catch'']),
     (''sport'', [''basketball'', ''football'', ''tennis'', ''swimming'', ''boxing'',
                  ''kick'', ''punch'']),
     (''gesture'', [''wave'', ''point'', ''clap'', ''shake'', ''nod'', ''bow'']),
     (''other'', [''mix'', ''musical'', ''theater'', ''performance''])]"

text \<open>
  The inner loop \<open>for pattern in patterns: if pattern in filename: ...; break\<close>.
  The result says whether the body of the \<open>if\<close> ran (the loop stops at the first
  pattern that occurs in the file name).
\<close>

fun pattern_loop :: "string \<Rightarrow> string list \<Rightarrow> bool" where
  "pattern_loop filename [] = False"
| "pattern_loop filename (pattern # patterns) =
     (if is_substr pattern filename then True else pattern_loop filename patterns)"

text \<open>
  The category loop of \<open>_extract_action_info\<close> (lines 75-83): the flag
  \<open>categorized\<close> is set by the inner loop and breaks the outer loop. The result is the
  category the file was appended to, or \<open>None\<close> when \<open>categorized\<close> is still false
  after the loop.
\<close>

fun category_loop :: "rule_table \<Rightarrow> string \<Rightarrow> string option" where
  "category_loop [] filename = None"
| "category_loop ((category, patterns) # rest) filename =
     (if pattern_loop filename patterns then Some category
      else category_loop rest filename)"

text \<open>
  The category one file ends up under: \<open>filename = file_path.name.lower()\<close>, then the
  loops, then \<open>'unknown'\<close> when nothing was hit (lines 72-86).
\<close>

definition classify :: "rule_table \<Rightarrow> string \<Rightarrow> string" where
  "classify tbl name =
     (case category_loop tbl (lower name) of
        Some category \<Rightarrow> category
      | None \<Rightarrow> ''unknown'')"

text \<open>
  \<open>action_info['categories']\<close> is a \<open>defaultdict(list)\<close>:
  \<open>d[k].append(v)\<close> creates the key at the end when it is new and appends to its list
  otherwise.
\<close>

definition dd_append :: "string \<Rightarrow> 'a \<Rightarrow> (string \<times> 'a list) list \<Rightarrow> (string \<times> 'a list) list" where
  "dd_append k v d =
     (case map_of d k of
        None \<Rightarrow> d @ [(k, [v])]
      | Some vs \<Rightarrow> AList.update k (vs @ [v]) d)"

text \<open>
  \<open>_extract_action_info\<close>, its \<open>'categories'\<close> component: every file is appended
  under its category, in the order of \<open>files\<close>.
\<close>

definition extract_action_info :: "rule_table \<Rightarrow> path list \<Rightarrow> (string \<times> path list) list" where
  "extract_action_info tbl files =
     foldl (\<lambda>categories file_path.
              dd_append (classify tbl (path_name file_path)) file_path categories)
       [] files"

text \<open>
  The sampling loop of \<open>list_all_datasets_actions\<close> (lines 164-171). For one file
  name every category is visited; the \<open>break\<close> only leaves the pattern loop.
\<close>

fun sample_file :: "rule_table \<Rightarrow> string \<Rightarrow> string set \<Rightarrow> string set" where
  "sample_file [] filename action_types = action_types"
| "sample_file ((category, patterns) # rest) filename action_types =
     sample_file rest filename
       (if pattern_loop filename patterns then insert category action_types
        else action_types)"

fun sample_loop :: "rule_table \<Rightarrow> path list \<Rightarrow> string set \<Rightarrow> string set" where
  "sample_loop tbl [] action_types = action_types"
| "sample_loop tbl (file_path # files) action_types =
     sample_loop tbl files (sample_file tbl (lower (path_name file_path)) action_types)"

text \<open>\<open>action_types = set(); for file_path in files[:10]: ...\<close>\<close>

definition sample_action_types :: "rule_table \<Rightarrow> path list \<Rightarrow> string set" where
  "sample_action_types tbl files = sample_loop tbl (take 10 files) {}"

subsection \<open>The classifier's contract in the spec's words\<close>

text \<open>
  The rules in declaration order: categories in order, the patterns of a category in
  order.
\<close>

definition rule_pairs :: "rule_table \<Rightarrow> (string \<times> string) list" where
  "rule_pairs tbl = concat (map (\<lambda>(category, patterns). map (Pair category) patterns) tbl)"

text \<open>A case-insensitive substring match of a pattern against a file name.\<close>

definition ci_match :: "string \<Rightarrow> string \<Rightarrow> bool" where
  "ci_match pattern name = is_substr (lower pattern) (lower name)"

text \<open>
  The spec's classifier: the category of the first rule, in declaration order, whose
  pattern matches; the sentinel when there is none.
\<close>

definition first_hit :: "rule_table \<Rightarrow> string \<Rightarrow> string" where
  "first_hit tbl name =
     (case find (\<lambda>(category, pattern). ci_match pattern name) (rule_pairs tbl) of
        Some (category, pattern) \<Rightarrow> category
      | None \<Rightarrow> ''unknown'')"

text \<open>Every pattern of the table is written in lower case.\<close>

definition lowercase_patterns :: "rule_table \<Rightarrow> bool" where
  "lowercase_patterns tbl = list_all (\<lambda>(category, patterns). list_all (\<lambda>p. lower p = p) patterns) tbl"

text \<open>
  The categories with a pattern occurring in one of the given file names: what a
  sample over these files can find.
\<close>

definition categories_found :: "rule_table \<Rightarrow> path list \<Rightarrow> string set" where
  "categories_found tbl files =
     set (concat (map (\<lambda>file_path.
            map fst (filter (\<lambda>(category, patterns).
                       list_ex (\<lambda>p. is_substr p (lower (path_name file_path))) patterns) tbl))
          files))"

section \<open>The archive on disk\<close>

text \<open>
  What \<open>np.load\<close> and the two field reads of the scan can raise. The first three are
  the reader's failures; \<open>IsADirectory\<close> is \<open>np.load\<close> on a directory whose name
  ends in \<open>.npz\<close>; \<open>ZeroDivision\<close> is \<open>num_frames / fps\<close> with \<open>fps = 0\<close>.
\<close>

datatype read_error = CorruptFile | MissingField | UnsupportedFormat | IsADirectory | ZeroDivision

text \<open>
  The two fields the scan reads from a loaded file: \<open>data['fps'].item()\<close> and
  \<open>data['body_positions'].shape[0]\<close>. Floats are modelled as reals (no rounding).
\<close>

datatype npz = Npz (fps: real) (num_frames: nat)

text \<open>
  A directory tree. A file carries its name, its size in bytes (\<open>stat().st_size\<close>)
  and what \<open>np.load\<close> gives on it. A directory carries its name and its entries in
  the order \<open>iterdir()\<close> and \<open>glob()\<close> enumerate them.
\<close>

datatype node = File string nat "read_error + npz" | Dir string "node list"

fun node_name :: "node \<Rightarrow> string" where
  "node_name (File name bytes content) = name"
| "node_name (Dir name entries) = name"

fun is_dir :: "node \<Rightarrow> bool" where
  "is_dir (File name bytes content) = False"
| "is_dir (Dir name entries) = True"

text \<open>\<open>glob("*.npz")\<close>: the entries of a directory whose name ends in \<open>.npz\<close>.\<close>

definition glob_npz :: "node list \<Rightarrow> node list" where
  "glob_npz entries = filter (\<lambda>n. suffix ''.npz'' (node_name n)) entries"

text \<open>
  \<open>rglob("*.npz")\<close>: the matching entries of the directory itself, then those of
  its subdirectories, recursively. On a path that is not a directory it yields nothing.
\<close>

fun rglob_npz :: "path \<Rightarrow> node \<Rightarrow> path list" where
  "rglob_npz p (File name bytes content) = []"
| "rglob_npz p (Dir name entries) =
     map (\<lambda>n. p @ [node_name n]) (glob_npz entries) @
     concat (map (\<lambda>n. rglob_npz (p @ [node_name n]) n) (filter is_dir entries))"

text \<open>\<open>data_root / name\<close>, when it exists.\<close>

fun child :: "node \<Rightarrow> string \<Rightarrow> node option" where
  "child (File name bytes content) n = None"
| "child (Dir name entries) n = find (\<lambda>e. node_name e = n) entries"

section \<open>The scan (data\_explorer.py, \<open>scan_datasets\<close>)\<close>

record subject_info =
  subject_path :: path
  files :: "path list"
  file_count :: nat
  frames :: "nat list"
  durations :: "real list"
  file_sizes :: "real list"

record dataset_info =
  dataset_path :: path
  subjects :: "(string \<times> subject_info) list"
  total_files :: nat
  total_frames :: nat
  dataset_file_sizes :: "real list"

text \<open>
  \<open>self.datasets\<close>: a dict, in insertion order. Assigning to a key that exists keeps
  its place (\<open>AList.update\<close>).
\<close>

type_synonym datasets = "(string \<times> dataset_info) list"

text \<open>The warning printed for a file that could not be read (line 86).\<close>

datatype warning = ReadWarning path read_error

text \<open>The state of a scan: the index and the warnings printed so far.\<close>

type_synonym scan_state = "datasets \<times> warning list"

text \<open>
  Lines 71-75, the fallible part of the \<open>try\<close> body: the frame count, the duration
  and the size in MB, or the exception.
\<close>

fun analyze_file :: "node \<Rightarrow> read_error + (nat \<times> real \<times> real)" where
  "analyze_file (Dir name entries) = Inl IsADirectory"
| "analyze_file (File name bytes (Inl e)) = Inl e"
| "analyze_file (File name bytes (Inr data)) =
     (if fps data = 0 then Inl ZeroDivision
      else Inr (num_frames data, real (num_frames data) / fps data,
                real bytes / (1024 * 1024)))"

text \<open>
  Lines 77-83: the six updates, addressed through the dict keys as in the source. Both
  keys were assigned earlier in the same iteration, so no lookup fails.
\<close>

definition record_motion :: "string \<Rightarrow> string \<Rightarrow> nat \<times> real \<times> real \<Rightarrow> datasets \<Rightarrow> datasets" where
  "record_motion dataset_name subject_name m D =
     (case m of (n, duration, file_size) \<Rightarrow>
        AList.map_entry dataset_name
          (\<lambda>d. d\<lparr>subjects :=
                    AList.map_entry subject_name
                      (\<lambda>s. s\<lparr>frames := frames s @ [n],
                              durations := durations s @ [duration],
                              file_sizes := file_sizes s @ [file_size]\<rparr>)
                      (subjects d),
                  total_files := total_files d + 1,
                  total_frames := total_frames d + n,
                  dataset_file_sizes := dataset_file_sizes d @ [file_size]\<rparr>)
          D)"

text \<open>Lines 69-86: one iteration of the loop over \<open>files\<close>, \<open>try\<close> and \<open>except\<close>.\<close>

definition scan_file :: "string \<Rightarrow> string \<Rightarrow> path \<Rightarrow> scan_state \<Rightarrow> node \<Rightarrow> scan_state" where
  "scan_file dataset_name subject_name subject_dir st f =
     (case analyze_file f of
        Inr m \<Rightarrow> (record_motion dataset_name subject_name m (fst st), snd st)
      | Inl e \<Rightarrow> (fst st, snd st @ [ReadWarning (subject_dir @ [node_name f]) e]))"

text \<open>Lines 59-66: the record a subject starts with.\<close>

definition new_subject :: "path \<Rightarrow> node list \<Rightarrow> subject_info" where
  "new_subject subject_dir fs =
     \<lparr>subject_path = subject_dir,
      files = map (\<lambda>f. subject_dir @ [node_name f]) fs,
      file_count = length fs,
      frames = [], durations = [], file_sizes = []\<rparr>"

text \<open>Lines 53-86: one iteration of the loop over the entries of a dataset directory.\<close>

fun scan_subject :: "string \<Rightarrow> path \<Rightarrow> scan_state \<Rightarrow> node \<Rightarrow> scan_state" where
  "scan_subject dataset_name dataset_dir st (File name bytes content) = st"
| "scan_subject dataset_name dataset_dir st (Dir subject_name entries) =
     (let subject_dir = dataset_dir @ [subject_name];
          fs = glob_npz entries
      in if fs = [] then st
         else foldl (scan_file dataset_name subject_name subject_dir)
                (AList.map_entry dataset_name
                   (\<lambda>d. d\<lparr>subjects :=
                             AList.update subject_name (new_subject subject_dir fs)
                               (subjects d)\<rparr>)
                   (fst st),
                 snd st)
                fs)"

text \<open>Lines 44-50: the record a dataset starts with.\<close>

definition new_dataset :: "path \<Rightarrow> dataset_info" where
  "new_dataset dataset_dir =
     \<lparr>dataset_path = dataset_dir, subjects = [], total_files = 0, total_frames = 0,
      dataset_file_sizes = []\<rparr>"

text \<open>Lines 41-86: one iteration of the loop over the entries of the root.\<close>

fun scan_dataset :: "path \<Rightarrow> scan_state \<Rightarrow> node \<Rightarrow> scan_state" where
  "scan_dataset root_dir st (File name bytes content) = st"
| "scan_dataset root_dir st (Dir dataset_name entries) =
     foldl (scan_subject dataset_name (root_dir @ [dataset_name]))
       (AList.update dataset_name (new_dataset (root_dir @ [dataset_name])) (fst st), snd st)
       entries"

text \<open>
  \<open>scan_datasets\<close> on a fresh explorer (\<open>self.datasets = {}\<close>). \<open>iterdir()\<close> on
  a root that is not a directory raises, and nothing catches it.
\<close>

datatype scan_error = NotADirectory

fun scan_datasets :: "node \<Rightarrow> scan_error + scan_state" where
  "scan_datasets (File name bytes content) = Inl NotADirectory"
| "scan_datasets (Dir name entries) = Inr (foldl (scan_dataset [name]) ([], []) entries)"

section \<open>Queries over the index (data\_explorer.py)\<close>

text \<open>
  A numpy float result: a number, an infinity or NaN. \<open>np.mean\<close> divides the sum by
  the number of elements with numpy's division, which on a zero count gives NaN or an
  infinity (and a warning) instead of raising.
\<close>

datatype npfloat = Finite real | PosInf | NegInf | NaN

definition np_true_divide :: "real \<Rightarrow> nat \<Rightarrow> npfloat" where
  "np_true_divide acc n =
     (if n = 0 then (if acc = 0 then NaN else if 0 < acc then PosInf else NegInf)
      else Finite (acc / real n))"

definition np_mean :: "real list \<Rightarrow> npfloat" where
  "np_mean xs = np_true_divide (sum_list xs) (length xs)"

text \<open>\<open>xs[:k]\<close> for an integer \<open>k\<close>: a negative \<open>k\<close> counts from the end.\<close>

definition slice_to :: "int \<Rightarrow> 'a list \<Rightarrow> 'a list" where
  "slice_to k xs = (if 0 \<le> k then take (nat k) xs else take (length xs - nat (- k)) xs)"

datatype query_error = DatasetNotFound string | IndexError

text \<open>What \<open>explore_dataset\<close> prints for one subject (lines 133-146).\<close>

record subject_report =
  report_subject :: string
  report_file_count :: nat
  report_total_frames :: nat
  mean_duration :: npfloat
  mean_file_size :: npfloat
  shown_files :: "string list"
  more_files :: "nat option"

definition explore_subject :: "string \<times> subject_info \<Rightarrow> subject_report" where
  "explore_subject entry =
     (case entry of (subject_name, subject_info) \<Rightarrow>
        \<lparr>report_subject = subject_name,
         report_file_count = file_count subject_info,
         report_total_frames = sum_list (frames subject_info),
         mean_duration = np_mean (durations subject_info),
         mean_file_size = np_mean (file_sizes subject_info),
         shown_files = map path_name (take 3 (files subject_info)),
         more_files = (if length (files subject_info) > 3
                       then Some (length (files subject_info) - 3) else None)\<rparr>)"

text \<open>\<open>explore_dataset\<close>: the error message and early return, or the reports.\<close>

definition explore_dataset :: "datasets \<Rightarrow> string \<Rightarrow> int \<Rightarrow> query_error + subject_report list" where
  "explore_dataset D dataset_name max_subjects =
     (case map_of D dataset_name of
        None \<Rightarrow> Inl (DatasetNotFound dataset_name)
      | Some dataset \<Rightarrow> Inr (map explore_subject (slice_to max_subjects (subjects dataset))))"

text \<open>\<open>xs[i]\<close> for \<open>i \<ge> 0\<close>; \<open>None\<close> stands for the IndexError.\<close>

fun nth_opt :: "'a list \<Rightarrow> nat \<Rightarrow> 'a option" where
  "nth_opt [] i = None"
| "nth_opt (x # xs) 0 = Some x"
| "nth_opt (x # xs) (Suc i) = nth_opt xs i"

record motion =
  motion_subject :: string
  motion_file :: string
  motion_duration :: real
  motion_frames :: nat
  motion_file_size :: real

text \<open>Lines 213-219: the dict built for index \<open>i\<close> of \<open>durations\<close>.\<close>

definition motion_at :: "string \<Rightarrow> subject_info \<Rightarrow> nat \<Rightarrow> real \<Rightarrow> query_error + motion" where
  "motion_at subject_name subject_info i duration =
     (case (nth_opt (files subject_info) i, nth_opt (frames subject_info) i,
            nth_opt (file_sizes subject_info) i) of
        (Some file_path, Some n, Some file_size) \<Rightarrow>
          Inr \<lparr>motion_subject = subject_name, motion_file = path_name file_path,
               motion_duration = duration, motion_frames = n,
               motion_file_size = file_size\<rparr>
      | _ \<Rightarrow> Inl IndexError)"

text \<open>Line 212: \<open>duration_range is None or (lo <= duration <= hi)\<close>.\<close>

definition in_range :: "(real \<times> real) option \<Rightarrow> real \<Rightarrow> bool" where
  "in_range duration_range duration =
     (case duration_range of
        None \<Rightarrow> True
      | Some (lo, hi) \<Rightarrow> lo \<le> duration \<and> duration \<le> hi)"

text \<open>Lines 211-219: the loop over \<open>enumerate(subject_info['durations'])\<close>.\<close>

fun subject_motions ::
  "(real \<times> real) option \<Rightarrow> string \<Rightarrow> subject_info \<Rightarrow> (nat \<times> real) list \<Rightarrow> motion list
     \<Rightarrow> query_error + motion list" where
  "subject_motions duration_range subject_name subject_info [] motions = Inr motions"
| "subject_motions duration_range subject_name subject_info ((i, duration) # rest) motions =
     (if in_range duration_range duration then
        (case motion_at subject_name subject_info i duration of
           Inl e \<Rightarrow> Inl e
         | Inr m \<Rightarrow>
             subject_motions duration_range subject_name subject_info rest (motions @ [m]))
      else subject_motions duration_range subject_name subject_info rest motions)"

text \<open>Lines 210-219: the loop over the subjects of the dataset.\<close>

fun dataset_motions ::
  "(real \<times> real) option \<Rightarrow> (string \<times> subject_info) list \<Rightarrow> motion list
     \<Rightarrow> query_error + motion list" where
  "dataset_motions duration_range [] motions = Inr motions"
| "dataset_motions duration_range ((subject_name, subject_info) # rest) motions =
     (case subject_motions duration_range subject_name subject_info
             (enumerate 0 (durations subject_info)) motions of
        Inl e \<Rightarrow> Inl e
      | Inr motions' \<Rightarrow> dataset_motions duration_range rest motions')"

text \<open>
  \<open>find_similar_motions\<close>: the error message and early return, or the rows it prints,
  sorted by duration (\<open>sorted\<close> is stable, as \<open>sort_key\<close> is). The empty list stands
  for the message that nothing was found.
\<close>

definition find_similar_motions ::
  "datasets \<Rightarrow> string \<Rightarrow> (real \<times> real) option \<Rightarrow> query_error + motion list" where
  "find_similar_motions D dataset_name duration_range =
     (case map_of D dataset_name of
        None \<Rightarrow> Inl (DatasetNotFound dataset_name)
      | Some dataset \<Rightarrow>
          (case dataset_motions duration_range (subjects dataset) [] of
             Inl e \<Rightarrow> Inl e
           | Inr motions \<Rightarrow> Inr (sort_key motion_duration motions)))"

section \<open>Queries over the directory tree (action\_analyzer.py)\<close>




text \<open>
  \<open>list_all_datasets_actions\<close>: one row (name, number of files, sampled categories)
  for each dataset that has files, in the order of the sorted names.
\<close>

fun overview_rows :: "rule_table \<Rightarrow> node \<Rightarrow> string list \<Rightarrow> (string \<times> nat \<times> string set) list" where
  "overview_rows tbl data_root [] = []"
| "overview_rows tbl data_root (dataset # rest) =
     (let fs = (case child data_root dataset of
                  None \<Rightarrow> []
                | Some dataset_node \<Rightarrow> rglob_npz [node_name data_root, dataset] dataset_node)
      in (if fs = [] then [] else [(dataset, length fs, sample_action_types tbl fs)])
         @ overview_rows tbl data_root rest)"

fun list_all_datasets_actions :: "rule_table \<Rightarrow> node \<Rightarrow> scan_error + (string \<times> nat \<times> string set) list" where
  "list_all_datasets_actions tbl (File name bytes content) = Inl NotADirectory"
| "list_all_datasets_actions tbl (Dir name entries) =
     Inr (overview_rows tbl (Dir name entries) (sort (map node_name (filter is_dir entries))))"

section \<open>What a scan stores, read off the directory tree\<close>

text \<open>The metadata of the files that are read successfully, in the order of the files.\<close>

fun read_ok :: "node list \<Rightarrow> (nat \<times> real \<times> real) list" where
  "read_ok [] = []"
| "read_ok (f # fs) =
     (case analyze_file f of Inr m \<Rightarrow> m # read_ok fs | Inl e \<Rightarrow> read_ok fs)"

text \<open>The warnings for the files of a subject directory that fail to read, in order.\<close>

fun read_failed :: "path \<Rightarrow> node list \<Rightarrow> warning list" where
  "read_failed subject_dir [] = []"
| "read_failed subject_dir (f # fs) =
     (case analyze_file f of
        Inr m \<Rightarrow> read_failed subject_dir fs
      | Inl e \<Rightarrow> ReadWarning (subject_dir @ [node_name f]) e # read_failed subject_dir fs)"

text \<open>A subject record after the metadata \<open>ms\<close> have been appended to its three lists.\<close>

definition add_motions :: "(nat \<times> real \<times> real) list \<Rightarrow> subject_info \<Rightarrow> subject_info" where
  "add_motions ms s =
     s\<lparr>frames := frames s @ map fst ms,
       durations := durations s @ map (\<lambda>m. fst (snd m)) ms,
       file_sizes := file_sizes s @ map (\<lambda>m. snd (snd m)) ms\<rparr>"

text \<open>A dataset record after the metadata \<open>ms\<close> have been added to its totals.\<close>

definition add_totals :: "(nat \<times> real \<times> real) list \<Rightarrow> dataset_info \<Rightarrow> dataset_info" where
  "add_totals ms d =
     d\<lparr>total_files := total_files d + length ms,
       total_frames := total_frames d + sum_list (map fst ms),
       dataset_file_sizes := dataset_file_sizes d @ map (\<lambda>m. snd (snd m)) ms\<rparr>"

text \<open>
  The record of a subject directory whose matching entries are \<open>fs\<close>: all of them
  are in \<open>files\<close> and counted in \<open>file_count\<close>; the three metadata lists hold the
  successfully read ones only.
\<close>

definition scanned_subject :: "path \<Rightarrow> node list \<Rightarrow> subject_info" where
  "scanned_subject subject_dir fs =
     \<lparr>subject_path = subject_dir,
      files = map (\<lambda>f. subject_dir @ [node_name f]) fs,
      file_count = length fs,
      frames = map fst (read_ok fs),
      durations = map (\<lambda>m. fst (snd m)) (read_ok fs),
      file_sizes = map (\<lambda>m. snd (snd m)) (read_ok fs)\<rparr>"

text \<open>The effect of one entry of a dataset directory on the dataset's record.\<close>

fun subject_step :: "path \<Rightarrow> dataset_info \<Rightarrow> node \<Rightarrow> dataset_info" where
  "subject_step dataset_dir d (File name bytes content) = d"
| "subject_step dataset_dir d (Dir subject_name entries) =
     (if glob_npz entries = [] then d
      else add_totals (read_ok (glob_npz entries))
             (d\<lparr>subjects :=
                  AList.update subject_name
                    (scanned_subject (dataset_dir @ [subject_name]) (glob_npz entries))
                    (subjects d)\<rparr>))"

definition scanned_dataset :: "path \<Rightarrow> node list \<Rightarrow> dataset_info" where
  "scanned_dataset dataset_dir entries =
     foldl (subject_step dataset_dir) (new_dataset dataset_dir) entries"

text \<open>The effect of one entry of the root on the index.\<close>

fun dataset_step :: "path \<Rightarrow> datasets \<Rightarrow> node \<Rightarrow> datasets" where
  "dataset_step root_dir D (File name bytes content) = D"
| "dataset_step root_dir D (Dir dataset_name entries) =
     AList.update dataset_name (scanned_dataset (root_dir @ [dataset_name]) entries) D"

definition scanned_index :: "path \<Rightarrow> node list \<Rightarrow> datasets" where
  "scanned_index root_dir entries = foldl (dataset_step root_dir) [] entries"

text \<open>The files a scan tries to read under a dataset directory, in scan order.\<close>

fun scan_targets :: "node list \<Rightarrow> node list" where
  "scan_targets [] = []"
| "scan_targets (File name bytes content # rest) = scan_targets rest"
| "scan_targets (Dir subject_name entries # rest) = glob_npz entries @ scan_targets rest"

text \<open>The warnings a scan prints under a dataset directory and under the root.\<close>

fun dataset_warnings :: "path \<Rightarrow> node list \<Rightarrow> warning list" where
  "dataset_warnings dataset_dir [] = []"
| "dataset_warnings dataset_dir (File name bytes content # rest) =
     dataset_warnings dataset_dir rest"
| "dataset_warnings dataset_dir (Dir subject_name entries # rest) =
     read_failed (dataset_dir @ [subject_name]) (glob_npz entries)
     @ dataset_warnings dataset_dir rest"

fun scan_warnings :: "path \<Rightarrow> node list \<Rightarrow> warning list" where
  "scan_warnings root_dir [] = []"
| "scan_warnings root_dir (File name bytes content # rest) = scan_warnings root_dir rest"
| "scan_warnings root_dir (Dir dataset_name entries # rest) =
     dataset_warnings (root_dir @ [dataset_name]) entries @ scan_warnings root_dir rest"

text \<open>
  The entries of an index as a flat sequence (dataset, subject, file name), in the
  order in which \<open>export_summary_csv\<close> walks it (lines 279-281).
\<close>

definition index_entries :: "datasets \<Rightarrow> (string \<times> string \<times> string) list" where
  "index_entries D =
     concat (map (\<lambda>(dataset_name, d).
       concat (map (\<lambda>(subject_name, s).
         map (\<lambda>file_path. (dataset_name, subject_name, path_name file_path)) (files s))
         (subjects d))) D)"

text \<open>The directories of a listing, in listing order.\<close>

fun dirs_of :: "node list \<Rightarrow> (string \<times> node list) list" where
  "dirs_of [] = []"
| "dirs_of (File name bytes content # rest) = dirs_of rest"
| "dirs_of (Dir name entries # rest) = (name, entries) # dirs_of rest"

text \<open>
  The scan targets of a root's listing as (dataset, subject, file name), in the order the
  file system enumerates them.
\<close>

definition listed_entries :: "node list \<Rightarrow> (string \<times> string \<times> string) list" where
  "listed_entries entries =
     concat (map (\<lambda>(dataset_name, dataset_entries).
       concat (map (\<lambda>(subject_name, subject_entries).
         map (\<lambda>f. (dataset_name, subject_name, node_name f)) (glob_npz subject_entries))
         (dirs_of dataset_entries))) (dirs_of entries))"

text \<open>
  No two directories of the root have the same name, and no two directories of a dataset
  directory: what every real directory listing satisfies.
\<close>

definition distinct_listing :: "node list \<Rightarrow> bool" where
  "distinct_listing entries =
     (distinct (map fst (dirs_of entries)) \<and>
      list_all (\<lambda>(dataset_name, dataset_entries). distinct (map fst (dirs_of dataset_entries)))
        (dirs_of entries))"

text \<open>
  Every listing is in ascending name order: the dataset directories of the root, the
  subject directories of each dataset, and the matching files of each subject.
\<close>

definition ascending_listing :: "node list \<Rightarrow> bool" where
  "ascending_listing entries =
     (sorted_wrt (<) (map fst (dirs_of entries)) \<and>
      list_all (\<lambda>(dataset_name, dataset_entries).
          sorted_wrt (<) (map fst (dirs_of dataset_entries)) \<and>
          list_all (\<lambda>(subject_name, subject_entries).
              sorted (map node_name (glob_npz subject_entries)))
            (dirs_of dataset_entries))
        (dirs_of entries))"

section \<open>Example inputs\<close>

text \<open>The rule table of the spec's order-sensitivity example.\<close>

definition two_rule_table :: rule_table where
  "two_rule_table = [(''A'', [''x'']), (''B'', [''xy''])]"

text \<open>Ten files of one category, and one file of another that comes after them.\<close>

definition ten_walk_files :: "path list" where
  "ten_walk_files =
     map (\<lambda>n. [''g1'', ''CMU'', ''01'', n])
       [''walk_01.npz'', ''walk_02.npz'', ''walk_03.npz'', ''walk_04.npz'', ''walk_05.npz'',
        ''walk_06.npz'', ''walk_07.npz'', ''walk_08.npz'', ''walk_09.npz'', ''walk_10.npz'']"

definition salsa_file :: path where
  "salsa_file = [''g1'', ''CMU'', ''01'', ''salsa_01.npz'']"

definition walk_file :: path where
  "walk_file = [''g1'', ''CMU'', ''01'', ''walk_01.npz'']"

text \<open>
  One subject with seven files, two of which fail to read with the error \<open>e\<close>, and
  the index and the warnings a scan of it gives.
\<close>

definition seven_files :: "read_error \<Rightarrow> node list" where
  "seven_files e =
     [File ''walk_01.npz'' 1048576 (Inr (Npz 120 240)),
      File ''walk_02.npz'' 1048576 (Inl e),
      File ''run_01.npz'' 2097152 (Inr (Npz 120 360)),
      File ''jump_01.npz'' 1048576 (Inr (Npz 60 120)),
      File ''sit_01.npz'' 2097152 (Inl e),
      File ''wave_01.npz'' 1048576 (Inr (Npz 120 480)),
      File ''kick_01.npz'' 2097152 (Inr (Npz 120 600))]"

definition seven_file_archive :: "read_error \<Rightarrow> node" where
  "seven_file_archive e = Dir ''g1'' [Dir ''CMU'' [Dir ''01'' (seven_files e)]]"

definition seven_file_subject :: subject_info where
  "seven_file_subject =
     \<lparr>subject_path = [''g1'', ''CMU'', ''01''],
      files = map (\<lambda>n. [''g1'', ''CMU'', ''01'', n])
                [''walk_01.npz'', ''walk_02.npz'', ''run_01.npz'', ''jump_01.npz'',
                 ''sit_01.npz'', ''wave_01.npz'', ''kick_01.npz''],
      file_count = 7,
      frames = [240, 360, 120, 480, 600],
      durations = [2, 3, 2, 4, 5],
      file_sizes = [1, 2, 1, 1, 2]\<rparr>"

definition seven_file_dataset :: dataset_info where
  "seven_file_dataset =
     \<lparr>dataset_path = [''g1'', ''CMU''],
      subjects = [(''01'', seven_file_subject)],
      total_files = 5,
      total_frames = 1800,
      dataset_file_sizes = [1, 2, 1, 1, 2]\<rparr>"

definition seven_file_warnings :: "read_error \<Rightarrow> warning list" where
  "seven_file_warnings e =
     [ReadWarning [''g1'', ''CMU'', ''01'', ''walk_02.npz''] e,
      ReadWarning [''g1'', ''CMU'', ''01'', ''sit_01.npz''] e]"

text \<open>
  An archive with a subject whose first file is corrupt, a subject whose only file cannot
  be read, a plain file under the root and an empty dataset; and its index.
\<close>

definition sample_listing :: "node list" where
  "sample_listing =
     [Dir ''CMU''
        [Dir ''01'' [File ''broken_01.npz'' 1048576 (Inl CorruptFile),
                     File ''walk_01.npz'' 2097152 (Inr (Npz 120 360)),
                     File ''notes.txt'' 5 (Inl UnsupportedFormat)],
         Dir ''02'' [File ''jump_01.npz'' 10 (Inl MissingField)]],
      File ''README'' 3 (Inl UnsupportedFormat),
      Dir ''ACCAD'' []]"

definition sample_archive :: node where
  "sample_archive = Dir ''g1'' sample_listing"

definition sample_cmu :: dataset_info where
  "sample_cmu =
     \<lparr>dataset_path = [''g1'', ''CMU''],
      subjects =
        [(''01'',
          \<lparr>subject_path = [''g1'', ''CMU'', ''01''],
           files = [[''g1'', ''CMU'', ''01'', ''broken_01.npz''],
                    [''g1'', ''CMU'', ''01'', ''walk_01.npz'']],
           file_count = 2, frames = [360], durations = [3], file_sizes = [2]\<rparr>),
         (''02'',
          \<lparr>subject_path = [''g1'', ''CMU'', ''02''],
           files = [[''g1'', ''CMU'', ''02'', ''jump_01.npz'']],
           file_count = 1, frames = [], durations = [], file_sizes = []\<rparr>)],
      total_files = 1, total_frames = 360, dataset_file_sizes = [2]\<rparr>"

definition sample_index :: datasets where
  "sample_index =
     [(''CMU'', sample_cmu),
      (''ACCAD'',
       \<lparr>dataset_path = [''g1'', ''ACCAD''], subjects = [], total_files = 0,
        total_frames = 0, dataset_file_sizes = []\<rparr>)]"

definition sample_warnings :: "warning list" where
  "sample_warnings =
     [ReadWarning [''g1'', ''CMU'', ''01'', ''broken_01.npz''] CorruptFile,
      ReadWarning [''g1'', ''CMU'', ''02'', ''jump_01.npz''] MissingField]"

text \<open>Two datasets that the file system lists in descending and in ascending name order.\<close>

definition kit_dir :: node where
  "kit_dir = Dir ''KIT'' [Dir ''03'' [File ''walk.npz'' 1048576 (Inr (Npz 120 240))]]"

definition accad_dir :: node where
  "accad_dir = Dir ''ACCAD'' [Dir ''01'' [File ''run.npz'' 1048576 (Inr (Npz 120 120))]]"

definition unsorted_listing :: "node list" where
  "unsorted_listing = [kit_dir, accad_dir]"

definition ascending_example :: "node list" where
  "ascending_example = [accad_dir, kit_dir]"

definition kit_dataset :: dataset_info where
  "kit_dataset =
     \<lparr>dataset_path = [''g1'', ''KIT''],
      subjects =
        [(''03'',
          \<lparr>subject_path = [''g1'', ''KIT'', ''03''],
           files = [[''g1'', ''KIT'', ''03'', ''walk.npz'']],
           file_count = 1, frames = [240], durations = [2], file_sizes = [1]\<rparr>)],
      total_files = 1, total_frames = 240, dataset_file_sizes = [1]\<rparr>"

definition accad_dataset :: dataset_info where
  "accad_dataset =
     \<lparr>dataset_path = [''g1'', ''ACCAD''],
      subjects =
        [(''01'',
          \<lparr>subject_path = [''g1'', ''ACCAD'', ''01''],
           files = [[''g1'', ''ACCAD'', ''01'', ''run.npz'']],
           file_count = 1, frames = [120], durations = [1], file_sizes = [1]\<rparr>)],
      total_files = 1, total_frames = 120, dataset_file_sizes = [1]\<rparr>"

definition unsorted_index :: datasets where
  "unsorted_index = [(''KIT'', kit_dataset), (''ACCAD'', accad_dataset)]"

section \<open>Facts about the classifier and the sample\<close>

lemma lower_char_idem: "lower_char (lower_char c) = lower_char c"
  unfolding lower_char_def by (auto simp: )

lemma is_substr_sublist: "is_substr p s = sublist p s"
  by (induction s) (auto simp: sublist_Cons_right)

lemma is_substr_set: "is_substr p s \<Longrightarrow> set p \<subseteq> set s"
  by (simp add: is_substr_sublist set_mono_sublist)

lemma find_app:
  "find P (xs @ ys) = (case find P xs of None \<Rightarrow> find P ys | Some x \<Rightarrow> Some x)"
  by (induction xs) auto

lemma is_substr_lower_fixed: "is_substr p (lower s) \<Longrightarrow> lower p = p"
proof -
  assume "is_substr p (lower s)"
  then have "set p \<subseteq> set (lower s)" by (rule is_substr_set)
  then have "\<forall>c\<in>set p. lower_char c = c"
    by (auto simp: lower_def lower_char_idem)
  then show ?thesis by (simp add: lower_def map_idI)
qed

lemma pattern_loop_ex: "pattern_loop filename ps = list_ex (\<lambda>p. is_substr p filename) ps"
  by (induction ps) auto

lemma category_loop_find:
  "category_loop tbl filename = map_option fst (find (\<lambda>(c, ps). pattern_loop filename ps) tbl)"
  by (induction tbl) auto

lemma find_rule_pairs:
  "(case find (\<lambda>(c, p). P p) (rule_pairs tbl) of Some (c, p) \<Rightarrow> c | None \<Rightarrow> d) =
   (case find (\<lambda>(c, ps). list_ex P ps) tbl of Some (c, ps) \<Rightarrow> c | None \<Rightarrow> d)"
proof (induction tbl)
  case Nil
  show ?case by (simp add: rule_pairs_def)
next
  case (Cons r tbl)
  obtain c ps where r: "r = (c, ps)" by (cases r)
  have inner: "find (\<lambda>(c, p). P p) (map (Pair c) ps) =
      (if list_ex P ps then Some (c, the (find P ps)) else None)"
    by (induction ps) auto
  have split: "rule_pairs ((c, ps) # tbl) = map (Pair c) ps @ rule_pairs tbl"
    by (simp add: rule_pairs_def)
  show ?case
    unfolding r using Cons.IH by (simp add: split find_app inner)
qed

lemma substr_lower_ci: "is_substr p (lower name) \<Longrightarrow> ci_match p name"
  by (simp add: ci_match_def is_substr_lower_fixed)

lemma ci_lower_substr: "lower p = p \<Longrightarrow> ci_match p name = is_substr p (lower name)"
  by (simp add: ci_match_def)

lemma find_cong_set: "(\<And>x. x \<in> set xs \<Longrightarrow> P x = Q x) \<Longrightarrow> find P xs = find Q xs"
  by (induction xs) auto

lemma classify_find:
  "classify tbl name =
     (case find (\<lambda>(c, ps). list_ex (\<lambda>p. is_substr p (lower name)) ps) tbl of
        Some (c, ps) \<Rightarrow> c | None \<Rightarrow> ''unknown'')"
  by (simp add: classify_def category_loop_find pattern_loop_ex split: option.splits prod.splits)

lemma classify_first_hit:
  assumes "lowercase_patterns tbl"
  shows "classify tbl name = first_hit tbl name"
proof -
  have "find (\<lambda>(c, ps). list_ex (\<lambda>p. is_substr p (lower name)) ps) tbl =
        find (\<lambda>(c, ps). list_ex (\<lambda>p. ci_match p name) ps) tbl"
  proof (rule find_cong_set)
    fix x assume x: "x \<in> set tbl"
    obtain c ps where xc: "x = (c, ps)" by (cases x)
    from assms x xc have "\<forall>p\<in>set ps. lower p = p"
      by (auto simp: lowercase_patterns_def list_all_iff)
    then have "list_ex (\<lambda>p. is_substr p (lower name)) ps = list_ex (\<lambda>p. ci_match p name) ps"
      by (auto simp: list_ex_iff ci_lower_substr)
    then show "(case x of (c, ps) \<Rightarrow> list_ex (\<lambda>p. is_substr p (lower name)) ps) =
               (case x of (c, ps) \<Rightarrow> list_ex (\<lambda>p. ci_match p name) ps)"
      by (simp add: xc)
  qed
  then show ?thesis
    by (simp add: classify_find first_hit_def find_rule_pairs [where P = "\<lambda>p. ci_match p name"])
qed

lemma classify_unknown:
  assumes "\<not> list_ex (\<lambda>(c, p). ci_match p name) (rule_pairs tbl)"
  shows "classify tbl name = ''unknown''"
proof -
  have "\<And>c ps p. (c, ps) \<in> set tbl \<Longrightarrow> p \<in> set ps \<Longrightarrow> \<not> is_substr p (lower name)"
  proof
    fix c ps p assume "(c, ps) \<in> set tbl" "p \<in> set ps" "is_substr p (lower name)"
    then have "(c, p) \<in> set (rule_pairs tbl)" "ci_match p name"
      by (auto simp: rule_pairs_def substr_lower_ci)
    with assms show False by (auto simp: list_ex_iff)
  qed
  then have "find (\<lambda>(c, ps). list_ex (\<lambda>p. is_substr p (lower name)) ps) tbl = None"
    by (auto simp: find_None_iff list_ex_iff)
  then show ?thesis by (simp add: classify_find)
qed

lemma classify_label: "classify tbl name \<in> insert ''unknown'' (fst ` set tbl)"
proof (cases "find (\<lambda>(c, ps). list_ex (\<lambda>p. is_substr p (lower name)) ps) tbl")
  case None
  then show ?thesis by (simp add: classify_find)
next
  case (Some r)
  then have "r \<in> set tbl" by (metis find_Some_iff nth_mem)
  with Some show ?thesis by (force simp: classify_find split: prod.splits)
qed

lemma map_of_dd_append:
  "map_of (dd_append k v d) =
     (map_of d)(k \<mapsto> (case map_of d k of None \<Rightarrow> [v] | Some vs \<Rightarrow> vs @ [v]))"
  by (auto simp: dd_append_def update_conv' map_add_def fun_eq_iff split: option.splits)

lemma map_of_group:
  "map_of (foldl (\<lambda>d f. dd_append (g f) f d) d0 fs) c =
     (case map_of d0 c of
        None \<Rightarrow> (if filter (\<lambda>f. g f = c) fs = [] then None
                 else Some (filter (\<lambda>f. g f = c) fs))
      | Some vs \<Rightarrow> Some (vs @ filter (\<lambda>f. g f = c) fs))"
  by (induction fs arbitrary: d0) (auto simp: map_of_dd_append split: option.splits)

lemma extract_action_info_lookup:
  "map_of (extract_action_info tbl fs) c =
     (if filter (\<lambda>f. classify tbl (path_name f) = c) fs = [] then None
      else Some (filter (\<lambda>f. classify tbl (path_name f) = c) fs))"
  unfolding extract_action_info_def
  using map_of_group [where g = "\<lambda>f. classify tbl (path_name f)" and ?d0.0 = "[]"]
  by simp

lemma dd_append_keys: "fst ` set (dd_append k v d) = insert k (fst ` set d)"
  by (auto simp: dd_append_def update_keys image_iff split: option.splits dest: map_of_SomeD
      simp flip: set_map)

lemma group_keys:
  "fst ` set (foldl (\<lambda>d f. dd_append (g f) f d) d0 fs) = fst ` set d0 \<union> g ` set fs"
  by (induction fs arbitrary: d0) (auto simp: dd_append_keys)

lemma sample_file_union:
  "sample_file tbl filename acc =
     acc \<union> {c. \<exists>ps. (c, ps) \<in> set tbl \<and> (\<exists>p\<in>set ps. is_substr p filename)}"
  by (induction tbl filename acc rule: sample_file.induct)
     (auto simp: pattern_loop_ex list_ex_iff)

lemma fst_filter_iff:
  "c \<in> fst ` {x \<in> set tbl. case x of (category, patterns) \<Rightarrow> Q patterns} \<longleftrightarrow>
   (\<exists>ps. (c, ps) \<in> set tbl \<and> Q ps)"
proof
  assume "c \<in> fst ` {x \<in> set tbl. case x of (category, patterns) \<Rightarrow> Q patterns}"
  then obtain x where "x \<in> set tbl" "case x of (category, patterns) \<Rightarrow> Q patterns" "c = fst x"
    by blast
  then show "\<exists>ps. (c, ps) \<in> set tbl \<and> Q ps"
    by (cases x) auto
next
  assume "\<exists>ps. (c, ps) \<in> set tbl \<and> Q ps"
  then obtain ps where "(c, ps) \<in> set tbl" "Q ps" by blast
  then have "(c, ps) \<in> {x \<in> set tbl. case x of (category, patterns) \<Rightarrow> Q patterns}" by simp
  then show "c \<in> fst ` {x \<in> set tbl. case x of (category, patterns) \<Rightarrow> Q patterns}"
    by (metis fst_conv image_eqI)
qed

lemma categories_found_iff:
  "c \<in> categories_found tbl fs \<longleftrightarrow>
   (\<exists>f\<in>set fs. \<exists>ps. (c, ps) \<in> set tbl \<and>
      (\<exists>p\<in>set ps. is_substr p (lower (path_name f))))"
  by (simp add: categories_found_def list_ex_iff fst_filter_iff)

lemma categories_found_Cons:
  "categories_found tbl (f # fs) =
     {c. \<exists>ps. (c, ps) \<in> set tbl \<and> (\<exists>p\<in>set ps. is_substr p (lower (path_name f)))}
     \<union> categories_found tbl fs"
  by (rule set_eqI) (simp add: categories_found_iff Un_def)

lemma sample_loop_union:
  "sample_loop tbl fs acc = acc \<union> categories_found tbl fs"
proof (induction fs arbitrary: acc)
  case Nil
  show ?case by (simp add: categories_found_def)
next
  case (Cons f fs)
  show ?case
    by (simp add: Cons.IH sample_file_union categories_found_Cons Un_assoc)
qed

lemma sample_action_types_found:
  "sample_action_types tbl fs = categories_found tbl (take 10 fs)"
  by (simp add: sample_action_types_def sample_loop_union)

lemma sample_ignores_rest:
  "length pre = 10 \<Longrightarrow> sample_action_types tbl (pre @ rest) = sample_action_types tbl pre"
  by (simp add: sample_action_types_def)

section \<open>The scan loops compute the record read off the tree\<close>

lemma map_entry_update_same:
  "AList.map_entry k f (AList.update k v al) = AList.update k (f v) al"
  by (induction al) auto

lemma map_entry_comp:
  "AList.map_entry k f (AList.map_entry k g al) = AList.map_entry k (\<lambda>x. f (g x)) al"
  by (induction al) auto

lemma add_motions_Nil: "add_motions [] s = s"
  by (simp add: add_motions_def)

lemma add_totals_Nil: "add_totals [] d = d"
  by (simp add: add_totals_def)

lemma map_entry_id: "AList.map_entry k (\<lambda>x. x) al = al"
  by (induction al) auto

lemma scan_file_fail:
  "analyze_file f = Inl e \<Longrightarrow>
   scan_file dn sn sdir (D, w) f = (D, w @ [ReadWarning (sdir @ [node_name f]) e])"
  by (simp add: scan_file_def)

lemma scan_file_ok:
  "analyze_file f = Inr m \<Longrightarrow> scan_file dn sn sdir (D, w) f = (record_motion dn sn m D, w)"
  by (simp add: scan_file_def)

lemma file_loop:
  "foldl (scan_file dn sn sdir) (AList.update dn d D, w) fs =
     (AList.update dn
        (add_totals (read_ok fs)
           (d\<lparr>subjects := AList.map_entry sn (add_motions (read_ok fs)) (subjects d)\<rparr>)) D,
      w @ read_failed sdir fs)"
proof (induction fs arbitrary: d w)
  case Nil
  show ?case
    by (simp add: add_totals_Nil add_motions_Nil [abs_def] map_entry_id)
next
  case (Cons f fs)
  show ?case
  proof (cases "analyze_file f")
    case (Inl e)
    then show ?thesis
      by (simp add: scan_file_fail Cons.IH)
  next
    case (Inr m)
    obtain n du sz where m: "m = (n, du, sz)" by (cases m)
    have step: "scan_file dn sn sdir (AList.update dn d D, w) f =
        (AList.update dn
           (d\<lparr>subjects := AList.map_entry sn (add_motions [m]) (subjects d),
              total_files := total_files d + 1,
              total_frames := total_frames d + n,
              dataset_file_sizes := dataset_file_sizes d @ [sz]\<rparr>) D, w)"
      by (simp add: scan_file_ok [OF Inr] m record_motion_def map_entry_update_same add_motions_def [abs_def])
    show ?thesis
      by (simp add: step Cons.IH Inr m map_entry_comp add_totals_def add_motions_def [abs_def] add.assoc)
  qed
qed

lemma add_motions_new_subject:
  "add_motions (read_ok fs) (new_subject sdir fs) = scanned_subject sdir fs"
  by (simp add: add_motions_def new_subject_def scanned_subject_def)

lemma scan_subject_step:
  "scan_subject dn ddir (AList.update dn d D, w) e =
     (AList.update dn (subject_step ddir d e) D,
      w @ dataset_warnings ddir [e])"
proof (cases e)
  case (File name bytes content)
  then show ?thesis by simp
next
  case (Dir sn entries)
  show ?thesis
  proof (cases "glob_npz entries = []")
    case True
    then show ?thesis by (simp add: Dir)
  next
    case False
    then show ?thesis
      by (simp add: Dir Let_def map_entry_update_same file_loop add_motions_new_subject)
  qed
qed

lemma dataset_warnings_append:
  "dataset_warnings ddir (xs @ ys) = dataset_warnings ddir xs @ dataset_warnings ddir ys"
  by (induction ddir xs rule: dataset_warnings.induct) auto

lemma subject_loop:
  "foldl (scan_subject dn ddir) (AList.update dn d D, w) es =
     (AList.update dn (foldl (subject_step ddir) d es) D, w @ dataset_warnings ddir es)"
proof (induction es arbitrary: d w)
  case Nil
  show ?case by simp
next
  case (Cons e es)
  have "dataset_warnings ddir (e # es) = dataset_warnings ddir [e] @ dataset_warnings ddir es"
    using dataset_warnings_append [of ddir "[e]" es] by simp
  then show ?case
    by (simp add: scan_subject_step Cons.IH)
qed

lemma scan_dataset_step:
  "scan_dataset rdir (D, w) e = (dataset_step rdir D e, w @ scan_warnings rdir [e])"
  by (cases e) (simp_all add: subject_loop scanned_dataset_def)

lemma scan_warnings_append:
  "scan_warnings rdir (xs @ ys) = scan_warnings rdir xs @ scan_warnings rdir ys"
  by (induction rdir xs rule: scan_warnings.induct) auto

lemma dataset_loop:
  "foldl (scan_dataset rdir) (D, w) es =
     (foldl (dataset_step rdir) D es, w @ scan_warnings rdir es)"
proof (induction es arbitrary: D w)
  case Nil
  show ?case by simp
next
  case (Cons e es)
  have "scan_warnings rdir (e # es) = scan_warnings rdir [e] @ scan_warnings rdir es"
    using scan_warnings_append [of rdir "[e]" es] by simp
  then show ?case
    by (simp add: scan_dataset_step Cons.IH)
qed

lemma scan_datasets_Dir:
  "scan_datasets (Dir r entries) = Inr (scanned_index [r] entries, scan_warnings [r] entries)"
  by (simp add: dataset_loop scanned_index_def)

lemma read_ok_append: "read_ok (xs @ ys) = read_ok xs @ read_ok ys"
  by (induction xs) (auto split: sum.splits)

lemma subjects_add_totals: "subjects (add_totals ms d) = subjects d"
  by (simp add: add_totals_def)

lemma total_files_add_totals: "total_files (add_totals ms d) = total_files d + length ms"
  by (simp add: add_totals_def)

lemma total_frames_add_totals:
  "total_frames (add_totals ms d) = total_frames d + sum_list (map fst ms)"
  by (simp add: add_totals_def)

lemma total_files_steps:
  "total_files (foldl (subject_step p) d es) = total_files d + length (read_ok (scan_targets es))"
proof (induction es arbitrary: d)
  case Nil
  show ?case by simp
next
  case (Cons e es)
  show ?case
    by (cases e) (simp_all add: Cons.IH read_ok_append total_files_add_totals)
qed

lemma total_frames_steps:
  "total_frames (foldl (subject_step p) d es) =
     total_frames d + sum_list (map fst (read_ok (scan_targets es)))"
proof (induction es arbitrary: d)
  case Nil
  show ?case by simp
next
  case (Cons e es)
  show ?case
    by (cases e) (simp_all add: Cons.IH read_ok_append total_frames_add_totals)
qed

lemma set_update_subset: "set (AList.update k v al) \<subseteq> insert (k, v) (set al)"
  by (induction al) auto

lemma subjects_steps_origin:
  assumes "(sn, s) \<in> set (subjects (foldl (subject_step p) d es))"
  shows "(sn, s) \<in> set (subjects d) \<or>
         (\<exists>entries. Dir sn entries \<in> set es \<and> glob_npz entries \<noteq> [] \<and>
            s = scanned_subject (p @ [sn]) (glob_npz entries))"
  using assms
proof (induction es arbitrary: d)
  case Nil
  then show ?case by simp
next
  case (Cons e es)
  from Cons.IH [OF Cons.prems [simplified]]
  have "(sn, s) \<in> set (subjects (subject_step p d e)) \<or>
        (\<exists>entries. Dir sn entries \<in> set es \<and> glob_npz entries \<noteq> [] \<and>
            s = scanned_subject (p @ [sn]) (glob_npz entries))" .
  then show ?case
  proof
    assume in_step: "(sn, s) \<in> set (subjects (subject_step p d e))"
    show ?thesis
    proof (cases e)
      case (File name bytes content)
      with in_step show ?thesis by simp
    next
      case (Dir name entries)
      show ?thesis
      proof (cases "glob_npz entries = []")
        case True
        with in_step Dir show ?thesis by simp
      next
        case False
        with in_step Dir
        have "(sn, s) \<in> insert (name, scanned_subject (p @ [name]) (glob_npz entries))
                 (set (subjects d))"
          using set_update_subset by (fastforce simp: subjects_add_totals)
        with False Dir show ?thesis by auto
      qed
    qed
  next
    assume "\<exists>entries. Dir sn entries \<in> set es \<and> glob_npz entries \<noteq> [] \<and>
            s = scanned_subject (p @ [sn]) (glob_npz entries)"
    then show ?thesis by auto
  qed
qed

lemma index_steps_origin:
  assumes "(dn, d) \<in> set (foldl (dataset_step r) D es)"
  shows "(dn, d) \<in> set D \<or>
         (\<exists>entries. Dir dn entries \<in> set es \<and> d = scanned_dataset (r @ [dn]) entries)"
  using assms
proof (induction es arbitrary: D)
  case Nil
  then show ?case by simp
next
  case (Cons e es)
  from Cons.IH [OF Cons.prems [simplified]]
  have "(dn, d) \<in> set (dataset_step r D e) \<or>
        (\<exists>entries. Dir dn entries \<in> set es \<and> d = scanned_dataset (r @ [dn]) entries)" .
  then show ?case
  proof
    assume in_step: "(dn, d) \<in> set (dataset_step r D e)"
    show ?thesis
    proof (cases e)
      case (File name bytes content)
      with in_step show ?thesis by simp
    next
      case (Dir name entries)
      with in_step
      have "(dn, d) \<in> insert (name, scanned_dataset (r @ [name]) entries) (set D)"
        using set_update_subset by fastforce
      with Dir show ?thesis by auto
    qed
  next
    assume "\<exists>entries. Dir dn entries \<in> set es \<and> d = scanned_dataset (r @ [dn]) entries"
    then show ?thesis by auto
  qed
qed

lemma scanned_dataset_totals:
  "total_files (scanned_dataset p es) = length (read_ok (scan_targets es))"
  "total_frames (scanned_dataset p es) = sum_list (map fst (read_ok (scan_targets es)))"
  by (simp_all add: scanned_dataset_def total_files_steps total_frames_steps new_dataset_def)

lemma scanned_index_dataset:
  assumes "(dn, d) \<in> set (scanned_index r es)"
  shows "\<exists>entries. Dir dn entries \<in> set es \<and> d = scanned_dataset (r @ [dn]) entries"
  using index_steps_origin [of dn d r "[]" es] assms by (simp add: scanned_index_def)

lemma scanned_dataset_subject:
  assumes "(sn, s) \<in> set (subjects (scanned_dataset p es))"
  shows "\<exists>entries. Dir sn entries \<in> set es \<and> glob_npz entries \<noteq> [] \<and>
            s = scanned_subject (p @ [sn]) (glob_npz entries)"
  using subjects_steps_origin [of sn s p "new_dataset p" es] assms
  by (simp add: scanned_dataset_def new_dataset_def)

section \<open>The index in listing order\<close>

lemma update_fresh: "k \<notin> fst ` set al \<Longrightarrow> AList.update k v al = al @ [(k, v)]"
  by (induction al) auto

lemma subjects_steps_distinct:
  assumes "distinct (map fst (dirs_of es))"
    and "fst ` set (subjects d) \<inter> fst ` set (dirs_of es) = {}"
  shows "subjects (foldl (subject_step p) d es) =
         subjects d @
         map (\<lambda>(sn, entries). (sn, scanned_subject (p @ [sn]) (glob_npz entries)))
           (filter (\<lambda>(sn, entries). glob_npz entries \<noteq> []) (dirs_of es))"
  using assms
proof (induction es arbitrary: d)
  case Nil
  show ?case by simp
next
  case (Cons e es)
  show ?case
  proof (cases e)
    case (File name bytes content)
    with Cons show ?thesis by simp
  next
    case (Dir name entries)
    from Cons.prems Dir have d1: "distinct (map fst (dirs_of es))"
      and fresh: "name \<notin> fst ` set (subjects d)"
      and notin: "name \<notin> fst ` set (dirs_of es)"
      and disj: "fst ` set (subjects d) \<inter> fst ` set (dirs_of es) = {}"
      by auto
    show ?thesis
    proof (cases "glob_npz entries = []")
      case True
      with Dir Cons.IH [OF d1 disj] show ?thesis by simp
    next
      case False
      let ?d' = "subject_step p d e"
      have sub: "subjects ?d' =
          subjects d @ [(name, scanned_subject (p @ [name]) (glob_npz entries))]"
        using False Dir fresh by (simp add: subjects_add_totals update_fresh)
      have disj': "fst ` set (subjects ?d') \<inter> fst ` set (dirs_of es) = {}"
        using disj notin by (auto simp: sub)
      have "subjects (foldl (subject_step p) d (e # es)) =
            subjects (foldl (subject_step p) ?d' es)"
        by simp
      also have "\<dots> = subjects ?d' @
          map (\<lambda>(sn, entries). (sn, scanned_subject (p @ [sn]) (glob_npz entries)))
            (filter (\<lambda>(sn, entries). glob_npz entries \<noteq> []) (dirs_of es))"
        by (rule Cons.IH [OF d1 disj'])
      also have "\<dots> = subjects d @
          map (\<lambda>(sn, entries). (sn, scanned_subject (p @ [sn]) (glob_npz entries)))
            (filter (\<lambda>(sn, entries). glob_npz entries \<noteq> []) (dirs_of (e # es)))"
        unfolding sub using False by (simp add: Dir)
      finally show ?thesis .
    qed
  qed
qed

lemma index_steps_distinct:
  assumes "distinct (map fst (dirs_of es))"
    and "fst ` set D \<inter> fst ` set (dirs_of es) = {}"
  shows "foldl (dataset_step r) D es =
         D @ map (\<lambda>(dn, entries). (dn, scanned_dataset (r @ [dn]) entries)) (dirs_of es)"
  using assms
proof (induction es arbitrary: D)
  case Nil
  show ?case by simp
next
  case (Cons e es)
  show ?case
  proof (cases e)
    case (File name bytes content)
    with Cons show ?thesis by simp
  next
    case (Dir name entries)
    from Cons.prems Dir have d1: "distinct (map fst (dirs_of es))"
      and fresh: "name \<notin> fst ` set D"
      and notin: "name \<notin> fst ` set (dirs_of es)"
      and disj: "fst ` set D \<inter> fst ` set (dirs_of es) = {}"
      by auto
    let ?D' = "dataset_step r D e"
    have step: "?D' = D @ [(name, scanned_dataset (r @ [name]) entries)]"
      using Dir fresh by (simp add: update_fresh)
    have disj': "fst ` set ?D' \<inter> fst ` set (dirs_of es) = {}"
      using disj notin by (auto simp: step)
    have "foldl (dataset_step r) D (e # es) = foldl (dataset_step r) ?D' es"
      by simp
    also have "\<dots> = ?D' @
        map (\<lambda>(dn, entries). (dn, scanned_dataset (r @ [dn]) entries)) (dirs_of es)"
      by (rule Cons.IH [OF d1 disj'])
    also have "\<dots> = D @
        map (\<lambda>(dn, entries). (dn, scanned_dataset (r @ [dn]) entries)) (dirs_of (e # es))"
      unfolding step by (simp add: Dir)
    finally show ?thesis .
  qed
qed

lemma concat_map_filter_nonempty:
  "(\<And>x. x \<in> set xs \<Longrightarrow> \<not> P x \<Longrightarrow> f x = []) \<Longrightarrow>
   concat (map f (filter P xs)) = concat (map f xs)"
  by (induction xs) auto

lemma dataset_entries_listed:
  assumes "distinct (map fst (dirs_of es))"
  shows "concat (map (\<lambda>(sn, s). map (\<lambda>file_path. (dn, sn, path_name file_path)) (files s))
           (subjects (scanned_dataset p es))) =
         concat (map (\<lambda>(sn, entries). map (\<lambda>f. (dn, sn, node_name f)) (glob_npz entries))
           (dirs_of es))"
proof -
  have sub: "subjects (scanned_dataset p es) =
      map (\<lambda>(sn, entries). (sn, scanned_subject (p @ [sn]) (glob_npz entries)))
        (filter (\<lambda>(sn, entries). glob_npz entries \<noteq> []) (dirs_of es))"
    using subjects_steps_distinct [OF assms, of "new_dataset p" p]
    by (simp add: scanned_dataset_def new_dataset_def)
  have "concat (map (\<lambda>(sn, s). map (\<lambda>file_path. (dn, sn, path_name file_path)) (files s))
           (subjects (scanned_dataset p es))) =
        concat (map (\<lambda>(sn, entries). map (\<lambda>f. (dn, sn, node_name f)) (glob_npz entries))
           (filter (\<lambda>(sn, entries). glob_npz entries \<noteq> []) (dirs_of es)))"
    by (simp add: sub comp_def case_prod_unfold scanned_subject_def path_name_def)
  also have "\<dots> = concat (map (\<lambda>(sn, entries). map (\<lambda>f. (dn, sn, node_name f)) (glob_npz entries))
           (dirs_of es))"
    by (rule concat_map_filter_nonempty) auto
  finally show ?thesis .
qed

lemma index_entries_listed:
  assumes "distinct_listing es"
  shows "index_entries (scanned_index r es) = listed_entries es"
proof -
  from assms have d0: "distinct (map fst (dirs_of es))"
    and d1: "\<And>dn entries. (dn, entries) \<in> set (dirs_of es) \<Longrightarrow> distinct (map fst (dirs_of entries))"
    by (auto simp: distinct_listing_def list_all_iff)
  have idx: "scanned_index r es =
      map (\<lambda>(dn, entries). (dn, scanned_dataset (r @ [dn]) entries)) (dirs_of es)"
    using index_steps_distinct [OF d0, of "[]" r] by (simp add: scanned_index_def)
  have "index_entries (scanned_index r es) =
      concat (map (\<lambda>(dn, entries).
        concat (map (\<lambda>(sn, s). map (\<lambda>file_path. (dn, sn, path_name file_path)) (files s))
           (subjects (scanned_dataset (r @ [dn]) entries)))) (dirs_of es))"
    by (simp add: index_entries_def idx comp_def case_prod_unfold)
  also have "\<dots> = listed_entries es"
    unfolding listed_entries_def
    by (rule arg_cong [where f = concat], rule map_cong [OF refl])
       (auto simp: dataset_entries_listed d1)
  finally show ?thesis .
qed

lemma sorted_map_Pair: "sorted xs \<Longrightarrow> sorted (map (Pair k) xs)"
  by (induction xs) (auto simp: less_eq_prod_def)

lemma sorted_concat_keyed:
  assumes "sorted_wrt (<) (map fst xs)"
    and "\<And>k v. (k, v) \<in> set xs \<Longrightarrow> sorted (g k v)"
  shows "sorted (concat (map (\<lambda>(k, v). map (Pair k) (g k v)) xs))"
  using assms
proof (induction xs)
  case Nil
  show ?case by simp
next
  case (Cons x xs)
  obtain k v where x: "x = (k, v)" by (cases x)
  have tail: "sorted (concat (map (\<lambda>(k, v). map (Pair k) (g k v)) xs))"
    using Cons by auto
  have head: "sorted (map (Pair k) (g k v))"
    using Cons.prems(2) [of k v] x by (simp add: sorted_map_Pair)
  have lt: "\<forall>y\<in>set xs. k < fst y"
    using Cons.prems(1) x by auto
  have cross: "\<forall>a\<in>set (map (Pair k) (g k v)).
      \<forall>b\<in>set (concat (map (\<lambda>(k, v). map (Pair k) (g k v)) xs)). a \<le> b"
    using lt by (fastforce simp: less_eq_prod_def)
  show ?case
    using head tail cross by (simp add: x sorted_append)
qed

lemma listed_entries_keyed:
  "listed_entries es =
     concat (map (\<lambda>(dn, de). map (Pair dn)
       (concat (map (\<lambda>(sn, se). map (Pair sn) (map node_name (glob_npz se))) (dirs_of de))))
       (dirs_of es))"
  by (simp add: listed_entries_def map_concat comp_def case_prod_unfold)

lemma ascending_sorted:
  assumes "ascending_listing es"
  shows "sorted (listed_entries es)"
  unfolding listed_entries_keyed
proof (rule sorted_concat_keyed)
  show "sorted_wrt (<) (map fst (dirs_of es))"
    using assms by (simp add: ascending_listing_def)
next
  fix dn de assume "(dn, de) \<in> set (dirs_of es)"
  with assms have s1: "sorted_wrt (<) (map fst (dirs_of de))"
    and s2: "\<And>sn se. (sn, se) \<in> set (dirs_of de) \<Longrightarrow> sorted (map node_name (glob_npz se))"
    by (auto simp: ascending_listing_def list_all_iff)
  show "sorted (concat (map (\<lambda>(sn, se). map (Pair sn) (map node_name (glob_npz se))) (dirs_of de)))"
    using s1 s2 by (rule sorted_concat_keyed)
qed

lemma ascending_distinct: "ascending_listing es \<Longrightarrow> distinct_listing es"
  by (auto simp: ascending_listing_def distinct_listing_def list_all_iff strict_sorted_iff)

section \<open>The example inputs, evaluated\<close>

lemmas scan_eval =
  new_dataset_def new_subject_def glob_npz_def scan_file_def record_motion_def suffix_to_prefix

lemma seven_file_scan:
  "scan_datasets (seven_file_archive e) =
     Inr ([(''CMU'', seven_file_dataset)], seven_file_warnings e)"
  by (simp add: seven_file_archive_def seven_files_def seven_file_dataset_def
      seven_file_subject_def seven_file_warnings_def scan_eval)

lemma sample_scan: "scan_datasets sample_archive = Inr (sample_index, sample_warnings)"
  by (simp add: sample_archive_def sample_listing_def sample_index_def sample_cmu_def
      sample_warnings_def scan_eval)

lemma unsorted_scan: "scan_datasets (Dir ''g1'' unsorted_listing) = Inr (unsorted_index, [])"
  by (simp add: unsorted_listing_def kit_dir_def accad_dir_def unsorted_index_def
      kit_dataset_def accad_dataset_def scan_eval)

lemma unsorted_entries:
  "index_entries unsorted_index =
     [(''KIT'', ''03'', ''walk.npz''), (''ACCAD'', ''01'', ''run.npz'')]"
  by (simp add: unsorted_index_def kit_dataset_def accad_dataset_def index_entries_def
      path_name_def)

lemma unsorted_not_sorted:
  "\<not> sorted [(''KIT'', ''03'', ''walk.npz''), (''ACCAD'', ''01'', ''run.npz'')]"
  by code_simp

lemma sample_find:
  "find_similar_motions sample_index ''CMU'' (Some (2, 4)) =
     Inr [\<lparr>motion_subject = ''01'', motion_file = ''broken_01.npz'', motion_duration = 3,
           motion_frames = 360, motion_file_size = 2\<rparr>]"
  by (simp add: sample_index_def sample_cmu_def find_similar_motions_def in_range_def
      motion_at_def path_name_def enumerate_eq_zip)

lemma sample_explore:
  "explore_dataset sample_index ''CMU'' 5 =
     Inr [\<lparr>report_subject = ''01'', report_file_count = 2, report_total_frames = 360,
           mean_duration = Finite 3, mean_file_size = Finite 2,
           shown_files = [''broken_01.npz'', ''walk_01.npz''], more_files = None\<rparr>,
          \<lparr>report_subject = ''02'', report_file_count = 1, report_total_frames = 0,
           mean_duration = NaN, mean_file_size = NaN,
           shown_files = [''jump_01.npz''], more_files = None\<rparr>]"
  by (simp add: sample_index_def sample_cmu_def explore_dataset_def explore_subject_def
      slice_to_def np_mean_def np_true_divide_def path_name_def)







lemma read_ok_failed_length: "length (read_ok fs) + length (read_failed p fs) = length fs"
  by (induction fs) (auto split: sum.splits)

lemma scanned_index_subject:
  assumes "(dn, d) \<in> set (scanned_index [r] entries)" and "(sn, s) \<in> set (subjects d)"
  shows "\<exists>dataset_entries subject_entries.
           Dir dn dataset_entries \<in> set entries \<and> Dir sn subject_entries \<in> set dataset_entries \<and>
           s = scanned_subject [r, dn, sn] (glob_npz subject_entries)"
proof -
  from scanned_index_dataset [OF assms(1)] obtain de
    where de: "Dir dn de \<in> set entries" "d = scanned_dataset ([r] @ [dn]) de" by blast
  from scanned_dataset_subject [of sn s "[r] @ [dn]" de] assms(2) de(2) obtain se
    where se: "Dir sn se \<in> set de" "s = scanned_subject (([r] @ [dn]) @ [sn]) (glob_npz se)"
    by blast
  from de(1) se show ?thesis by auto
qed

lemma mean_duration_scanned:
  "mean_duration (explore_subject (sn, scanned_subject p fs)) =
     (if read_ok fs = [] then NaN
      else Finite (sum_list (map (\<lambda>m. fst (snd m)) (read_ok fs)) / real (length (read_ok fs))))"
  by (simp add: explore_subject_def scanned_subject_def np_mean_def np_true_divide_def)

lemma mean_file_size_scanned:
  "mean_file_size (explore_subject (sn, scanned_subject p fs)) =
     (if read_ok fs = [] then NaN
      else Finite (sum_list (map (\<lambda>m. snd (snd m)) (read_ok fs)) / real (length (read_ok fs))))"
  by (simp add: explore_subject_def scanned_subject_def np_mean_def np_true_divide_def)

lemma read_ok_skip: "analyze_file f = Inl e \<Longrightarrow> read_ok (xs @ f # ys) = read_ok (xs @ ys)"
  by (simp add: read_ok_append)

lemma read_ok_keep:
  "analyze_file f = Inr m \<Longrightarrow> read_ok (xs @ f # ys) = read_ok xs @ m # read_ok ys"
  by (simp add: read_ok_append)

section \<open>Claims about the classifier\<close>

text \<open>
  C2. \<open>classify\<close> walks the rule table in declaration order (categories in order, the
  patterns of a category in order) and returns the category of the first rule whose
  pattern is a case-insensitive substring of the file name. The source lowers the file
  name only, so this holds for tables whose patterns are written in lower case, as those of
  \<open>action_patterns\<close> are. With the rules \<open>[A: x, B: xy]\<close> the file \<open>xy_clip.npz\<close> is
  classified as \<open>A\<close>.
\<close>

theorem classify_first_match:
  "(lowercase_patterns tbl \<longrightarrow> classify tbl name = first_hit tbl name) \<and>
   lowercase_patterns action_patterns \<and>
   classify action_patterns name = first_hit action_patterns name \<and>
   classify two_rule_table ''xy_clip.npz'' = ''A''"
proof (intro conjI impI)
  assume "lowercase_patterns tbl"
  then show "classify tbl name = first_hit tbl name" by (rule classify_first_hit)
next
  show "lowercase_patterns action_patterns" by code_simp
next
  have "lowercase_patterns action_patterns" by code_simp
  then show "classify action_patterns name = first_hit action_patterns name"
    by (rule classify_first_hit)
next
  show "classify two_rule_table ''xy_clip.npz'' = ''A''" by code_simp
qed

theorem classify_first_match_witness:
  "lowercase_patterns two_rule_table \<and>
   classify two_rule_table ''xy_clip.npz'' = first_hit two_rule_table ''xy_clip.npz'' \<and>
   first_hit two_rule_table ''xy_clip.npz'' = ''A''"
proof -
  have h: "lowercase_patterns two_rule_table" by code_simp
  have v: "first_hit two_rule_table ''xy_clip.npz'' = ''A''" by code_simp
  show ?thesis
    using h v classify_first_match [of two_rule_table "''xy_clip.npz''"] by simp
qed

text \<open>
  C7. When no pattern of any rule is a case-insensitive substring of the file name,
  \<open>classify\<close> returns \<open>unknown\<close>. The category of a file is always a label of the table
  or \<open>unknown\<close>, the keys of the grouping built by \<open>_extract_action_info\<close> are such
  labels, and every file is listed under the category \<open>classify\<close> gives it and nowhere
  else.
\<close>

theorem classify_unknown_or_label:
  "(\<not> list_ex (\<lambda>(category, pattern). ci_match pattern name) (rule_pairs tbl)
      \<longrightarrow> classify tbl name = ''unknown'') \<and>
   classify tbl name \<in> insert ''unknown'' (fst ` set tbl) \<and>
   fst ` set (extract_action_info tbl fs) \<subseteq> insert ''unknown'' (fst ` set tbl) \<and>
   map_of (extract_action_info tbl fs) c =
     (if filter (\<lambda>f. classify tbl (path_name f) = c) fs = [] then None
      else Some (filter (\<lambda>f. classify tbl (path_name f) = c) fs))"
proof (intro conjI impI)
  assume "\<not> list_ex (\<lambda>(category, pattern). ci_match pattern name) (rule_pairs tbl)"
  then show "classify tbl name = ''unknown''" by (rule classify_unknown)
next
  show "classify tbl name \<in> insert ''unknown'' (fst ` set tbl)" by (rule classify_label)
next
  have "fst ` set (extract_action_info tbl fs) = (\<lambda>f. classify tbl (path_name f)) ` set fs"
    unfolding extract_action_info_def
    using group_keys [where g = "\<lambda>f. classify tbl (path_name f)" and ?d0.0 = "[]" and fs = fs]
    by simp
  then show "fst ` set (extract_action_info tbl fs) \<subseteq> insert ''unknown'' (fst ` set tbl)"
    using classify_label by auto
next
  show "map_of (extract_action_info tbl fs) c =
     (if filter (\<lambda>f. classify tbl (path_name f) = c) fs = [] then None
      else Some (filter (\<lambda>f. classify tbl (path_name f) = c) fs))"
    by (rule extract_action_info_lookup)
qed

theorem classify_unknown_or_label_witness:
  "\<not> list_ex (\<lambda>(category, pattern). ci_match pattern ''Trial_03.npz'') (rule_pairs action_patterns) \<and>
   classify action_patterns ''Trial_03.npz'' = ''unknown''"
proof -
  have h: "\<not> list_ex (\<lambda>(category, pattern). ci_match pattern ''Trial_03.npz'')
              (rule_pairs action_patterns)"
    by code_simp
  show ?thesis
    using h classify_unknown_or_label [of "''Trial_03.npz''" action_patterns] by simp
qed

section \<open>Claims about the category sample\<close>

text \<open>
  C9, as the code has it. The sample size is the constant 10, not a parameter: the
  overview inspects the first ten files of the dataset's listing and returns the
  categories with a pattern occurring in one of them. Whatever follows the first ten
  files has no influence on the result, so a category that only occurs later is missed.
\<close>

theorem sample_inspects_first_ten:
  "sample_action_types tbl fs = categories_found tbl (take 10 fs) \<and>
   (length pre = 10 \<longrightarrow> sample_action_types tbl (pre @ rest) = sample_action_types tbl pre)"
  by (simp add: sample_action_types_found sample_ignores_rest)

theorem sample_inspects_first_ten_witness:
  "length ten_walk_files = 10 \<and>
   sample_action_types action_patterns (ten_walk_files @ [salsa_file]) = {''daily''} \<and>
   categories_found action_patterns [salsa_file] = {''dance''}"
proof -
  have h: "length ten_walk_files = 10" by (simp add: ten_walk_files_def)
  have v: "sample_action_types action_patterns ten_walk_files = {''daily''}" by code_simp
  have c: "categories_found action_patterns [salsa_file] = {''dance''}" by code_simp
  have t: "sample_action_types action_patterns (ten_walk_files @ [salsa_file]) =
           sample_action_types action_patterns ten_walk_files"
    using h sample_inspects_first_ten [of action_patterns "ten_walk_files @ [salsa_file]"
        ten_walk_files "[salsa_file]"]
    by blast
  from t v have "sample_action_types action_patterns (ten_walk_files @ [salsa_file]) = {''daily''}"
    by (rule trans)
  with h c show ?thesis by (intro conjI)
qed

text \<open>
  C9 as stated fails: with a sample size of 1 the claim would have only the first of two
  files inspected, but the code inspects both.
\<close>

theorem sample_size_is_not_a_parameter:
  "sample_action_types action_patterns [walk_file, salsa_file] \<noteq>
   categories_found action_patterns (take 1 [walk_file, salsa_file])"
  by code_simp

text \<open>
  C10. For one file name the sampling loop visits every category: the \<open>break\<close> leaves
  the pattern loop only, so every category with a pattern occurring in the name is added.
  The file \<open>Happy_Dance.npz\<close> adds both \<open>dance\<close> and \<open>emotion\<close> to the sample, while
  \<open>classify\<close> gives it the first-declared category \<open>dance\<close> alone.
\<close>

theorem sample_adds_every_matching_category:
  "sample_file tbl filename acc =
     acc \<union> {c. \<exists>ps. (c, ps) \<in> set tbl \<and> (\<exists>p\<in>set ps. is_substr p filename)} \<and>
   sample_action_types action_patterns [[''g1'', ''CMU'', ''01'', ''Happy_Dance.npz'']] =
     {''dance'', ''emotion''} \<and>
   classify action_patterns ''Happy_Dance.npz'' = ''dance''"
proof (intro conjI)
  show "sample_file tbl filename acc =
     acc \<union> {c. \<exists>ps. (c, ps) \<in> set tbl \<and> (\<exists>p\<in>set ps. is_substr p filename)}"
    by (rule sample_file_union)
next
  show "sample_action_types action_patterns [[''g1'', ''CMU'', ''01'', ''Happy_Dance.npz'']] =
     {''dance'', ''emotion''}"
    by code_simp
next
  show "classify action_patterns ''Happy_Dance.npz'' = ''dance''" by code_simp
qed

section \<open>Claims about the scan\<close>

text \<open>
  C1, as the code has it. A scan of a root directory never aborts on a file that cannot
  be read: it returns the index read off the tree and the warnings printed. The failure
  is only printed (path and error); the index holds no entry for it. Every subject of the
  index comes from a subject directory: all its matching files are in \<open>files\<close> and
  \<open>file_count\<close>, and the metadata lists hold the successfully read ones, so each
  matching file either has metadata or a warning. With five readable files and two
  failing ones the index holds five metadata entries and a file count of seven, two
  warnings are printed, and the scan returns.
\<close>

theorem scan_survives_read_failures:
  "scan_datasets (Dir r entries) = Inr (scanned_index [r] entries, scan_warnings [r] entries) \<and>
   (\<forall>(dn, d)\<in>set (scanned_index [r] entries). \<forall>(sn, s)\<in>set (subjects d).
      \<exists>dataset_entries subject_entries.
        Dir dn dataset_entries \<in> set entries \<and> Dir sn subject_entries \<in> set dataset_entries \<and>
        s = scanned_subject [r, dn, sn] (glob_npz subject_entries)) \<and>
   length (frames (scanned_subject p fs)) + length (read_failed p fs) = length fs \<and>
   scan_datasets (seven_file_archive e) =
     Inr ([(''CMU'', seven_file_dataset)], seven_file_warnings e)"
proof (intro conjI)
  show "scan_datasets (Dir r entries) =
      Inr (scanned_index [r] entries, scan_warnings [r] entries)"
    by (rule scan_datasets_Dir)
next
  show "\<forall>(dn, d)\<in>set (scanned_index [r] entries). \<forall>(sn, s)\<in>set (subjects d).
      \<exists>dataset_entries subject_entries.
        Dir dn dataset_entries \<in> set entries \<and> Dir sn subject_entries \<in> set dataset_entries \<and>
        s = scanned_subject [r, dn, sn] (glob_npz subject_entries)"
    using scanned_index_subject by blast
next
  show "length (frames (scanned_subject p fs)) + length (read_failed p fs) = length fs"
    using read_ok_failed_length [of fs p] by (simp add: scanned_subject_def)
next
  show "scan_datasets (seven_file_archive e) =
      Inr ([(''CMU'', seven_file_dataset)], seven_file_warnings e)"
    by (rule seven_file_scan)
qed

theorem scan_survives_read_failures_witness:
  "(''CMU'', seven_file_dataset) \<in>
     set (scanned_index [''g1''] [Dir ''CMU'' [Dir ''01'' (seven_files CorruptFile)]]) \<and>
   (''01'', seven_file_subject) \<in> set (subjects seven_file_dataset) \<and>
   (\<exists>dataset_entries subject_entries.
      Dir ''CMU'' dataset_entries \<in> set [Dir ''CMU'' [Dir ''01'' (seven_files CorruptFile)]] \<and>
      Dir ''01'' subject_entries \<in> set dataset_entries \<and>
      seven_file_subject = scanned_subject [''g1'', ''CMU'', ''01''] (glob_npz subject_entries))"
proof -
  let ?es = "[Dir ''CMU'' [Dir ''01'' (seven_files CorruptFile)]]"
  note t = scan_survives_read_failures [of "''g1''" ?es "[]" "[]" CorruptFile]
  from t have t1: "scan_datasets (Dir ''g1'' ?es) =
      Inr (scanned_index [''g1''] ?es, scan_warnings [''g1''] ?es)"
    by blast
  from t have "scan_datasets (seven_file_archive CorruptFile) =
      Inr ([(''CMU'', seven_file_dataset)], seven_file_warnings CorruptFile)"
    by blast
  then have t2: "scan_datasets (Dir ''g1'' ?es) =
      Inr ([(''CMU'', seven_file_dataset)], seven_file_warnings CorruptFile)"
    unfolding seven_file_archive_def .
  from t1 t2 have idx: "scanned_index [''g1''] ?es = [(''CMU'', seven_file_dataset)]"
    by (simp del: scan_datasets.simps)
  have a: "(''CMU'', seven_file_dataset) \<in> set (scanned_index [''g1''] ?es)"
    by (simp add: idx)
  have b: "(''01'', seven_file_subject) \<in> set (subjects seven_file_dataset)"
    by (simp add: seven_file_dataset_def)
  from t have "\<forall>(dn, d)\<in>set (scanned_index [''g1''] ?es). \<forall>(sn, s)\<in>set (subjects d).
      \<exists>dataset_entries subject_entries.
        Dir dn dataset_entries \<in> set ?es \<and> Dir sn subject_entries \<in> set dataset_entries \<and>
        s = scanned_subject [''g1'', dn, sn] (glob_npz subject_entries)"
    by blast
  with a b have "\<exists>dataset_entries subject_entries.
      Dir ''CMU'' dataset_entries \<in> set ?es \<and> Dir ''01'' subject_entries \<in> set dataset_entries \<and>
      seven_file_subject = scanned_subject [''g1'', ''CMU'', ''01''] (glob_npz subject_entries)"
    by fast
  with a b show ?thesis by blast
qed

text \<open>
  C1 as stated fails: the index holds no failure entry. Whether the two files fail as
  corrupt or for a missing field, the index is the same; it has five metadata entries and
  nothing for the two failures, which appear in the printed warnings only.
\<close>

theorem read_failures_leave_no_index_entry:
  "scan_datasets (seven_file_archive CorruptFile) =
     Inr ([(''CMU'', seven_file_dataset)], seven_file_warnings CorruptFile) \<and>
   scan_datasets (seven_file_archive MissingField) =
     Inr ([(''CMU'', seven_file_dataset)], seven_file_warnings MissingField) \<and>
   length (frames seven_file_subject) = 5 \<and>
   length (durations seven_file_subject) = 5 \<and>
   total_files seven_file_dataset = 5"
  by (simp add: seven_file_scan seven_file_subject_def seven_file_dataset_def)

text \<open>
  C3, as the code has it. For every dataset of the index built by a scan, \<open>total_files\<close>
  is the number of files of that dataset that were read successfully, and
  \<open>total_frames\<close> is the sum of their frame counts. A file that fails to read adds
  nothing to either; a file that is read adds one file and its frames.
\<close>

theorem total_files_counts_successful_reads:
  "(scan_datasets (Dir r entries) = Inr (D, w) \<longrightarrow>
      (\<forall>(dn, d)\<in>set D. \<exists>dataset_entries.
          Dir dn dataset_entries \<in> set entries \<and>
          total_files d = length (read_ok (scan_targets dataset_entries)) \<and>
          total_frames d = sum_list (map fst (read_ok (scan_targets dataset_entries))))) \<and>
   (analyze_file f = Inl e \<longrightarrow> read_ok (xs @ f # ys) = read_ok (xs @ ys)) \<and>
   (analyze_file f = Inr m \<longrightarrow> read_ok (xs @ f # ys) = read_ok xs @ m # read_ok ys)"
proof (intro conjI impI)
  assume "scan_datasets (Dir r entries) = Inr (D, w)"
  then have D: "D = scanned_index [r] entries" unfolding scan_datasets_Dir by simp
  show "\<forall>(dn, d)\<in>set D. \<exists>dataset_entries.
          Dir dn dataset_entries \<in> set entries \<and>
          total_files d = length (read_ok (scan_targets dataset_entries)) \<and>
          total_frames d = sum_list (map fst (read_ok (scan_targets dataset_entries)))"
    unfolding D using scanned_index_dataset scanned_dataset_totals by blast
next
  assume "analyze_file f = Inl e"
  then show "read_ok (xs @ f # ys) = read_ok (xs @ ys)" by (rule read_ok_skip)
next
  assume "analyze_file f = Inr m"
  then show "read_ok (xs @ f # ys) = read_ok xs @ m # read_ok ys" by (rule read_ok_keep)
qed

theorem total_files_counts_successful_reads_witness:
  "scan_datasets (Dir ''g1'' [Dir ''CMU'' [Dir ''01'' (seven_files CorruptFile)]]) =
     Inr ([(''CMU'', seven_file_dataset)], seven_file_warnings CorruptFile) \<and>
   (\<exists>dataset_entries.
      Dir ''CMU'' dataset_entries \<in> set [Dir ''CMU'' [Dir ''01'' (seven_files CorruptFile)]] \<and>
      total_files seven_file_dataset = length (read_ok (scan_targets dataset_entries)) \<and>
      total_frames seven_file_dataset =
        sum_list (map fst (read_ok (scan_targets dataset_entries))))"
proof -
  let ?es = "[Dir ''CMU'' [Dir ''01'' (seven_files CorruptFile)]]"
  have h: "scan_datasets (Dir ''g1'' ?es) =
      Inr ([(''CMU'', seven_file_dataset)], seven_file_warnings CorruptFile)"
    using seven_file_scan [of CorruptFile] unfolding seven_file_archive_def .
  from total_files_counts_successful_reads
    [of "''g1''" ?es "[(''CMU'', seven_file_dataset)]" "seven_file_warnings CorruptFile"] h
  have "\<forall>(dn, d)\<in>set [(''CMU'', seven_file_dataset)]. \<exists>dataset_entries.
          Dir dn dataset_entries \<in> set ?es \<and>
          total_files d = length (read_ok (scan_targets dataset_entries)) \<and>
          total_frames d = sum_list (map fst (read_ok (scan_targets dataset_entries)))"
    by blast
  then have "\<exists>dataset_entries.
      Dir ''CMU'' dataset_entries \<in> set ?es \<and>
      total_files seven_file_dataset = length (read_ok (scan_targets dataset_entries)) \<and>
      total_frames seven_file_dataset =
        sum_list (map fst (read_ok (scan_targets dataset_entries)))"
    by simp
  with h show ?thesis by blast
qed

text \<open>
  C3 as stated fails: the dataset has seven files the scan tries to read, two of them
  fail, and \<open>total_files\<close> is five.
\<close>

theorem total_files_skips_failed_reads:
  "scan_datasets (seven_file_archive CorruptFile) =
     Inr ([(''CMU'', seven_file_dataset)], seven_file_warnings CorruptFile) \<and>
   length (scan_targets [Dir ''01'' (seven_files CorruptFile)]) = 7 \<and>
   total_files seven_file_dataset = 5"
  by (simp add: seven_file_scan seven_file_dataset_def seven_files_def glob_npz_def
      suffix_to_prefix)

text \<open>
  C4, as the code has it. The scan does not sort: the entry sequence of the index follows
  the order in which the file system lists the datasets, the subjects and the files
  (directory names being distinct within a directory). It is therefore the same for two
  scans of an archive that is listed the same way, and it is in ascending order of
  dataset, subject and file name whenever every listing is.
\<close>

theorem scan_follows_listing_order:
  "scan_datasets (Dir r entries) = Inr (scanned_index [r] entries, scan_warnings [r] entries) \<and>
   (distinct_listing entries \<longrightarrow>
      index_entries (scanned_index [r] entries) = listed_entries entries) \<and>
   (ascending_listing entries \<longrightarrow> sorted (index_entries (scanned_index [r] entries)))"
proof (intro conjI impI)
  show "scan_datasets (Dir r entries) =
      Inr (scanned_index [r] entries, scan_warnings [r] entries)"
    by (rule scan_datasets_Dir)
next
  assume "distinct_listing entries"
  then show "index_entries (scanned_index [r] entries) = listed_entries entries"
    by (rule index_entries_listed)
next
  assume a: "ascending_listing entries"
  then have "distinct_listing entries" by (rule ascending_distinct)
  then have "index_entries (scanned_index [r] entries) = listed_entries entries"
    by (rule index_entries_listed)
  with ascending_sorted [OF a] show "sorted (index_entries (scanned_index [r] entries))"
    by simp
qed

theorem scan_follows_listing_order_witness:
  "distinct_listing unsorted_listing \<and>
   index_entries (scanned_index [''g1''] unsorted_listing) = listed_entries unsorted_listing \<and>
   ascending_listing ascending_example \<and>
   sorted (index_entries (scanned_index [''g1''] ascending_example))"
proof -
  have d: "distinct_listing unsorted_listing"
    by (simp add: distinct_listing_def unsorted_listing_def kit_dir_def accad_dir_def)
  have a: "ascending_listing ascending_example"
    by (simp add: ascending_listing_def ascending_example_def kit_dir_def accad_dir_def
        glob_npz_def suffix_to_prefix)
  from d scan_follows_listing_order [of "''g1''" unsorted_listing]
  have 1: "index_entries (scanned_index [''g1''] unsorted_listing) =
      listed_entries unsorted_listing"
    by blast
  from a scan_follows_listing_order [of "''g1''" ascending_example]
  have 2: "sorted (index_entries (scanned_index [''g1''] ascending_example))"
    by blast
  from d a 1 2 show ?thesis by blast
qed

text \<open>
  C4 as stated fails: when the file system lists \<open>KIT\<close> before \<open>ACCAD\<close>, so does the
  index, and its entry sequence is not in ascending order.
\<close>

theorem scan_does_not_sort:
  "scan_datasets (Dir ''g1'' unsorted_listing) = Inr (unsorted_index, []) \<and>
   index_entries unsorted_index =
     [(''KIT'', ''03'', ''walk.npz''), (''ACCAD'', ''01'', ''run.npz'')] \<and>
   \<not> sorted (index_entries unsorted_index)"
  using unsorted_not_sorted
  by (simp add: unsorted_scan unsorted_entries del: scan_datasets.simps)

section \<open>Claims about the queries\<close>




text \<open>
  C6, where the code goes wrong. \<open>find_similar_motions\<close> indexes \<open>files\<close> with the
  position of a duration, but \<open>durations\<close> holds the successfully read files only. In
  the sample archive the first file of subject \<open>01\<close> is corrupt and the second lasts 3
  seconds; the query for 2 to 4 seconds returns one row that names the corrupt file.
\<close>

theorem find_similar_motions_names_unread_file:
  "scan_datasets sample_archive = Inr (sample_index, sample_warnings) \<and>
   find_similar_motions sample_index ''CMU'' (Some (2, 4)) =
     Inr [\<lparr>motion_subject = ''01'', motion_file = ''broken_01.npz'', motion_duration = 3,
           motion_frames = 360, motion_file_size = 2\<rparr>]"
  using sample_scan sample_find by (intro conjI)

text \<open>
  C8, as the code has it. For a dataset of a scanned index, \<open>explore_dataset\<close> reports
  the first \<open>max_subjects\<close> subjects; each mean is \<open>np.mean\<close> over the list that
  holds the successfully read files only. There is no guard: for a subject without a
  successfully read file the mean is the division of zero by a zero count, which numpy
  answers with NaN.
\<close>

theorem explore_means_over_successful_reads:
  "(scan_datasets (Dir r entries) = Inr (D, w) \<and> map_of D dataset_name = Some d \<longrightarrow>
      explore_dataset D dataset_name k =
        Inr (map explore_subject (slice_to k (subjects d))) \<and>
      (\<forall>(sn, s)\<in>set (subjects d). \<exists>p fs.
          s = scanned_subject p fs \<and>
          mean_duration (explore_subject (sn, s)) =
            (if read_ok fs = [] then NaN
             else Finite (sum_list (map (\<lambda>m. fst (snd m)) (read_ok fs)) /
                          real (length (read_ok fs)))) \<and>
          mean_file_size (explore_subject (sn, s)) =
            (if read_ok fs = [] then NaN
             else Finite (sum_list (map (\<lambda>m. snd (snd m)) (read_ok fs)) /
                          real (length (read_ok fs)))))) \<and>
   np_mean [] = np_true_divide 0 0 \<and>
   np_true_divide 0 0 = NaN"
proof (intro conjI impI)
  assume h: "scan_datasets (Dir r entries) = Inr (D, w) \<and> map_of D dataset_name = Some d"
  then have D: "D = scanned_index [r] entries" unfolding scan_datasets_Dir by simp
  from h have ind: "(dataset_name, d) \<in> set (scanned_index [r] entries)"
    unfolding D by (auto dest: map_of_SomeD)
  from h show "explore_dataset D dataset_name k =
      Inr (map explore_subject (slice_to k (subjects d)))"
    by (simp add: explore_dataset_def)
  show "\<forall>(sn, s)\<in>set (subjects d). \<exists>p fs.
          s = scanned_subject p fs \<and>
          mean_duration (explore_subject (sn, s)) =
            (if read_ok fs = [] then NaN
             else Finite (sum_list (map (\<lambda>m. fst (snd m)) (read_ok fs)) /
                          real (length (read_ok fs)))) \<and>
          mean_file_size (explore_subject (sn, s)) =
            (if read_ok fs = [] then NaN
             else Finite (sum_list (map (\<lambda>m. snd (snd m)) (read_ok fs)) /
                          real (length (read_ok fs))))"
  proof (clarify)
    fix sn s assume "(sn, s) \<in> set (subjects d)"
    from scanned_index_subject [OF ind this] obtain p fs where s: "s = scanned_subject p fs"
      by blast
    show "\<exists>p fs.
          s = scanned_subject p fs \<and>
          mean_duration (explore_subject (sn, s)) =
            (if read_ok fs = [] then NaN
             else Finite (sum_list (map (\<lambda>m. fst (snd m)) (read_ok fs)) /
                          real (length (read_ok fs)))) \<and>
          mean_file_size (explore_subject (sn, s)) =
            (if read_ok fs = [] then NaN
             else Finite (sum_list (map (\<lambda>m. snd (snd m)) (read_ok fs)) /
                          real (length (read_ok fs))))"
      unfolding s using mean_duration_scanned mean_file_size_scanned by blast
  qed
next
  show "np_mean [] = np_true_divide 0 0" by (simp add: np_mean_def)
next
  show "np_true_divide 0 0 = NaN" by (simp add: np_true_divide_def)
qed

theorem explore_means_over_successful_reads_witness:
  "scan_datasets (Dir ''g1'' sample_listing) = Inr (sample_index, sample_warnings) \<and>
   map_of sample_index ''CMU'' = Some sample_cmu \<and>
   explore_dataset sample_index ''CMU'' 5 =
     Inr (map explore_subject (slice_to 5 (subjects sample_cmu))) \<and>
   (\<exists>p fs. snd (hd (subjects sample_cmu)) = scanned_subject p fs \<and>
      mean_duration (explore_subject (hd (subjects sample_cmu))) =
        (if read_ok fs = [] then NaN
         else Finite (sum_list (map (\<lambda>m. fst (snd m)) (read_ok fs)) /
                      real (length (read_ok fs)))))"
proof -
  have a: "scan_datasets (Dir ''g1'' sample_listing) = Inr (sample_index, sample_warnings)"
    using sample_scan unfolding sample_archive_def .
  have b: "map_of sample_index ''CMU'' = Some sample_cmu"
    by (simp add: sample_index_def)
  note t = explore_means_over_successful_reads
    [of "''g1''" sample_listing sample_index sample_warnings "''CMU''" sample_cmu 5]
  from a b have ab: "scan_datasets (Dir ''g1'' sample_listing) =
      Inr (sample_index, sample_warnings) \<and> map_of sample_index ''CMU'' = Some sample_cmu"
    by (intro conjI)
  note xy = t [THEN conjunct1, THEN mp, OF ab]
  note 1 = xy [THEN conjunct1]
  note all = xy [THEN conjunct2]
  have "hd (subjects sample_cmu) \<in> set (subjects sample_cmu)"
    by (simp add: sample_cmu_def)
  with all have 2: "\<exists>p fs. snd (hd (subjects sample_cmu)) = scanned_subject p fs \<and>
      mean_duration (explore_subject (hd (subjects sample_cmu))) =
        (if read_ok fs = [] then NaN
         else Finite (sum_list (map (\<lambda>m. fst (snd m)) (read_ok fs)) /
                      real (length (read_ok fs))))"
    by (cases "hd (subjects sample_cmu)") fastforce
  from a b 1 2 show ?thesis by blast
qed

text \<open>
  C8 as stated fails: nothing guards the division. Subject \<open>02\<close> of the sample archive
  has no successfully read file, its list of durations is empty, and both of its means
  are the NaN that the division by a zero count gives.
\<close>

theorem explore_divides_by_zero_count:
  "scan_datasets sample_archive = Inr (sample_index, sample_warnings) \<and>
   explore_dataset sample_index ''CMU'' 5 =
     Inr [\<lparr>report_subject = ''01'', report_file_count = 2, report_total_frames = 360,
           mean_duration = Finite 3, mean_file_size = Finite 2,
           shown_files = [''broken_01.npz'', ''walk_01.npz''], more_files = None\<rparr>,
          \<lparr>report_subject = ''02'', report_file_count = 1, report_total_frames = 0,
           mean_duration = NaN, mean_file_size = NaN,
           shown_files = [''jump_01.npz''], more_files = None\<rparr>] \<and>
   np_mean [] = np_true_divide 0 0 \<and>
   np_true_divide 0 0 = NaN"
  using sample_scan sample_explore
  by (simp add: np_mean_def np_true_divide_def del: scan_datasets.simps)

end
